theory Spec2Isabelle
  imports Main
begin

section \<open>Errors raised by the stacking routines\<close>

text \<open>
  Every exception that the modelled part of \<^verbatim>\<open>np.py\<close> can raise is a value:
  \<^item> \<open>ShapeMismatch\<close>: the \<^verbatim>\<open>ValueError\<close> of \<^verbatim>\<open>np.broadcast_shapes\<close> and of a
    broadcasting assignment;
  \<^item> \<open>RaggedInput\<close>: the \<^verbatim>\<open>AssertionError\<close> of \<^verbatim>\<open>assert len(row) == Ncols\<close>;
  \<^item> \<open>IndexError\<close>: \<^verbatim>\<open>arr[0]\<close> on an empty list;
  \<^item> \<open>EmptyInput\<close>: the \<^verbatim>\<open>ValueError\<close> of \<^verbatim>\<open>np.result_type()\<close> called without arguments;
  \<^item> \<open>TypeError\<close>: \<^verbatim>\<open>len(None)\<close> and \<^verbatim>\<open>np.broadcast_shapes(None, ...)\<close>.
\<close>

datatype error = ShapeMismatch | RaggedInput | IndexError | EmptyInput | TypeError

section \<open>Shapes and the broadcasting primitive\<close>

type_synonym shape = "nat list"

text \<open>The dimension of a shape at position \<open>p\<close> counted from the right; a shape that is
  too short is padded with 1 on the left, as broadcasting does.\<close>

definition dimr :: "shape \<Rightarrow> nat \<Rightarrow> nat" where
  "dimr s p = (if p < length s then rev s ! p else 1)"

text \<open>Unifying all the dimensions found at one aligned position: the dimensions other
  than 1 must agree, and a position holding only 1 stays 1.\<close>

definition dim_of :: "nat list \<Rightarrow> nat option" where
  "dim_of ds =
     (case filter (\<lambda>d. d \<noteq> 1) ds of
        [] \<Rightarrow> Some 1
      | d # rest \<Rightarrow> if list_all (\<lambda>e. e = d) rest then Some d else None)"

definition max_rank :: "shape list \<Rightarrow> nat" where
  "max_rank shapes = foldr max (map length shapes) 0"

text \<open>\<^verbatim>\<open>np.broadcast_shapes(*shapes)\<close>, the library primitive: all the shapes at once,
  position by position from the right.\<close>

definition np_broadcast_shapes :: "shape list \<Rightarrow> error + shape" where
  "np_broadcast_shapes shapes =
     (case those (map (\<lambda>p. dim_of (map (\<lambda>s. dimr s p) shapes)) [0..<max_rank shapes]) of
        None \<Rightarrow> Inl ShapeMismatch
      | Some r \<Rightarrow> Inr (rev r))"

text \<open>The rule for two shapes, and its left fold over a list of shapes: the reference
  computation that the specification compares the windowed one with.\<close>

definition bc_dim :: "nat \<Rightarrow> nat \<Rightarrow> nat option" where
  "bc_dim x y = (if x = 1 then Some y else if y = 1 then Some x
                 else if x = y then Some x else None)"

definition broadcast2 :: "shape \<Rightarrow> shape \<Rightarrow> error + shape" where
  "broadcast2 a b =
     (case those (map (\<lambda>p. bc_dim (dimr a p) (dimr b p)) [0..<max (length a) (length b)]) of
        None \<Rightarrow> Inl ShapeMismatch
      | Some r \<Rightarrow> Inr (rev r))"

definition fold_step :: "error + shape \<Rightarrow> shape \<Rightarrow> error + shape" where
  "fold_step acc s = (case acc of Inl e \<Rightarrow> Inl e | Inr b \<Rightarrow> broadcast2 b s)"

definition broadcast_fold :: "shape list \<Rightarrow> error + shape" where
  "broadcast_fold shapes = foldl fold_step (Inr []) shapes"

section \<open>Arrays\<close>

text \<open>An \<^verbatim>\<open>ndarray\<close>: its shape, its dtype and its values in row-major order. A Python
  scalar is, after \<^verbatim>\<open>np.asarray\<close>, an array of shape \<open>[]\<close> holding one value.\<close>

record ('d, 'v) ndarray =
  shape :: shape
  dtype :: 'd
  data :: "'v list"

section \<open>\<^verbatim>\<open>broadcast_shapes\<close>: the windowed computation\<close>

text \<open>One pass through the body of the \<^verbatim>\<open>while\<close> loop: the new \<^verbatim>\<open>idx\<close> and \<^verbatim>\<open>bc\<close>.
  \<^verbatim>\<open>bc\<close> is \<open>None\<close> until the first pass has run.\<close>

definition broadcast_shapes_body ::
  "('d, 'v) ndarray list \<Rightarrow> nat \<Rightarrow> shape option \<Rightarrow> error + (nat \<times> shape)" where
  "broadcast_shapes_body mlist idx bc =
     (if idx = 0 \<or> bc = Some [] then
        (case np_broadcast_shapes (map shape (take 32 (drop idx mlist))) of
           Inl e \<Rightarrow> Inl e
         | Inr b \<Rightarrow> Inr (idx + 32, b))
      else
        (case bc of
           None \<Rightarrow> Inl TypeError
         | Some c \<Rightarrow>
             (case np_broadcast_shapes (c # map shape (take 31 (drop idx mlist))) of
                Inl e \<Rightarrow> Inl e
              | Inr b \<Rightarrow> Inr (idx + 31, b))))"

function broadcast_shapes_loop ::
  "('d, 'v) ndarray list \<Rightarrow> nat \<Rightarrow> shape option \<Rightarrow> error + shape option" where
  "broadcast_shapes_loop mlist idx bc =
     (if idx < length mlist then
        (case broadcast_shapes_body mlist idx bc of
           Inl e \<Rightarrow> Inl e
         | Inr (idx', b) \<Rightarrow> broadcast_shapes_loop mlist idx' (Some b))
      else Inr bc)"
  by pat_completeness auto
termination
  by (relation "measure (\<lambda>(mlist, idx, bc). length mlist - idx)")
     (auto simp: broadcast_shapes_body_def split: if_splits sum.splits option.splits)

declare broadcast_shapes_loop.simps [simp del]

definition broadcast_shapes :: "('d, 'v) ndarray list \<Rightarrow> error + shape option" where
  "broadcast_shapes mlist = broadcast_shapes_loop mlist 0 None"


section \<open>Indexing, broadcasting views and assignment\<close>

definition size_of :: "shape \<Rightarrow> nat" where
  "size_of s = prod_list s"

text \<open>Row-major position of a multi-index, and back (\<^verbatim>\<open>np.ravel_multi_index\<close>,
  \<^verbatim>\<open>np.unravel_index\<close>).\<close>

fun ravel_multi_index :: "shape \<Rightarrow> nat list \<Rightarrow> nat" where
  "ravel_multi_index (n # ns) (i # js) = i * size_of ns + ravel_multi_index ns js"
| "ravel_multi_index _ _ = 0"

fun unravel_index :: "shape \<Rightarrow> nat \<Rightarrow> nat list" where
  "unravel_index [] k = []"
| "unravel_index (n # ns) k = (k div size_of ns) # unravel_index ns (k mod size_of ns)"

definition in_bounds :: "nat list \<Rightarrow> shape \<Rightarrow> bool" where
  "in_bounds idx s = list_all2 (\<lambda>i n. i < n) idx s"

text \<open>A shape can be broadcast into \<open>B\<close> when, aligned on the right, each of its
  dimensions is 1 or the dimension of \<open>B\<close>.\<close>

definition broadcastable :: "shape \<Rightarrow> shape \<Rightarrow> bool" where
  "broadcastable s B =
     (length s \<le> length B \<and> list_all (\<lambda>p. dimr s p = 1 \<or> dimr s p = dimr B p) [0..<length s])"

text \<open>The index into the source array that a broadcast view reads at index \<open>idx\<close> of the
  target: the leading axes the source lacks are dropped and an axis of size 1 is read at 0.\<close>

definition bc_index :: "shape \<Rightarrow> nat list \<Rightarrow> nat list" where
  "bc_index s idx = map2 (\<lambda>n i. if n = 1 then 0 else i) s (drop (length idx - length s) idx)"

definition bc_item :: "('d, 'v) ndarray \<Rightarrow> nat list \<Rightarrow> 'v" where
  "bc_item a idx = data a ! ravel_multi_index (shape a) (bc_index (shape a) idx)"

text \<open>\<^verbatim>\<open>np.broadcast_to(a, B)\<close>.\<close>

definition broadcast_view :: "('d, 'v) ndarray \<Rightarrow> shape \<Rightarrow> ('d, 'v) ndarray" where
  "broadcast_view a B =
     \<lparr>shape = B, dtype = dtype a,
      data = map (\<lambda>k. bc_item a (unravel_index B k)) [0..<size_of B]\<rparr>"

definition broadcast_to :: "('d, 'v) ndarray \<Rightarrow> shape \<Rightarrow> error + ('d, 'v) ndarray" where
  "broadcast_to a B =
     (if broadcastable (shape a) B then Inr (broadcast_view a B) else Inl ShapeMismatch)"

text \<open>An array is well formed when it holds one value per index.\<close>

definition well_formed :: "('d, 'v) ndarray \<Rightarrow> bool" where
  "well_formed a = (length (data a) = size_of (shape a))"

section \<open>The library primitives that the stackers are parametric in\<close>

text \<open>
  The arithmetic of dtypes and the conversion of values belong to the array library, not
  to \<^verbatim>\<open>np.py\<close>. The stackers are modelled for any library that provides
  \<^item> \<open>np_result_type\<close>: \<^verbatim>\<open>np.result_type(*vals)\<close> on a non-empty list of arrays;
  \<^item> \<open>np_array_dtype\<close>: the dtype that \<^verbatim>\<open>np.array\<close> finds for a nested list of scalars;
  \<^item> \<open>np_astype\<close>: the conversion of one value to a dtype, as an assignment into an
    array of that dtype performs it;
  \<^item> \<open>np_empty_fill\<close>: what \<^verbatim>\<open>np.empty\<close> leaves in a slot that is never written;
  \<^item> \<open>np_int_dtype\<close> and \<open>np_zero\<close>: the dtype and the value of the Python literal \<^verbatim>\<open>0\<close>.
\<close>

record ('d, 'v) numpy =
  np_result_type :: "('d, 'v) ndarray list \<Rightarrow> 'd"
  np_array_dtype :: "('d, 'v) ndarray list \<Rightarrow> 'd"
  np_astype :: "'d \<Rightarrow> 'v \<Rightarrow> 'v"
  np_empty_fill :: 'v
  np_int_dtype :: 'd
  np_zero :: 'v

text \<open>\<^verbatim>\<open>np.result_type(*vals)\<close> raises when it is called without arguments.\<close>

definition result_type :: "('d, 'v) numpy \<Rightarrow> ('d, 'v) ndarray list \<Rightarrow> error + 'd" where
  "result_type np vals = (if vals = [] then Inl EmptyInput else Inr (np_result_type np vals))"

text \<open>\<^verbatim>\<open>a.astype(dt)\<close>: the same shape, every value converted.\<close>

definition astype :: "('d, 'v) numpy \<Rightarrow> 'd \<Rightarrow> ('d, 'v) ndarray \<Rightarrow> ('d, 'v) ndarray" where
  "astype np dt a = a\<lparr>dtype := dt, data := map (np_astype np dt) (data a)\<rparr>"

text \<open>\<^verbatim>\<open>np.empty(s, dtype=dt)\<close>.\<close>

definition np_empty :: "('d, 'v) numpy \<Rightarrow> shape \<Rightarrow> 'd \<Rightarrow> ('d, 'v) ndarray" where
  "np_empty np s dt = \<lparr>shape = s, dtype = dt, data = replicate (size_of s) (np_empty_fill np)\<rparr>"

text \<open>\<^verbatim>\<open>np.array(arr)\<close> for a list of scalars and for a list of rows of scalars, the only
  inputs the stackers pass to it: one value per element, converted to the dtype found.\<close>

definition np_array_1d :: "('d, 'v) numpy \<Rightarrow> ('d, 'v) ndarray list \<Rightarrow> ('d, 'v) ndarray" where
  "np_array_1d np arr =
     \<lparr>shape = [length arr], dtype = np_array_dtype np arr,
      data = map (\<lambda>a. np_astype np (np_array_dtype np arr) (data a ! 0)) arr\<rparr>"

definition np_array_2d ::
  "('d, 'v) numpy \<Rightarrow> nat \<Rightarrow> ('d, 'v) ndarray list list \<Rightarrow> ('d, 'v) ndarray" where
  "np_array_2d np Ncols arr =
     \<lparr>shape = [length arr, Ncols], dtype = np_array_dtype np (concat arr),
      data = map (\<lambda>a. np_astype np (np_array_dtype np (concat arr)) (data a ! 0)) (concat arr)\<rparr>"

text \<open>\<^verbatim>\<open>M[..., i\<^sub>1, ..., i\<^sub>k] = kdm\<close>: the trailing indices \<open>tail\<close> select one slot, and
  \<^verbatim>\<open>kdm\<close> is broadcast into the leading axes and converted to the dtype of \<open>M\<close>.\<close>

definition setitem_tail ::
  "('d, 'v) numpy \<Rightarrow> ('d, 'v) ndarray \<Rightarrow> nat list \<Rightarrow> ('d, 'v) ndarray \<Rightarrow> error + ('d, 'v) ndarray"
  where
  "setitem_tail np M tail kdm =
     (let n = length (shape M) - length tail; lead = take n (shape M) in
      if length (shape M) < length tail \<or> \<not> in_bounds tail (drop n (shape M)) then Inl IndexError
      else if \<not> broadcastable (shape kdm) lead then Inl ShapeMismatch
      else Inr (M\<lparr>data :=
             map (\<lambda>k. let idx = unravel_index (shape M) k in
                       if drop n idx = tail
                       then np_astype np (dtype M) (bc_item kdm (take n idx))
                       else data M ! k)
                 [0..<length (data M)]\<rparr>))"

text \<open>\<^verbatim>\<open>M[..., i\<^sub>1, ..., i\<^sub>k]\<close>, read for in-range trailing indices.\<close>

definition getitem_tail :: "('d, 'v) ndarray \<Rightarrow> nat list \<Rightarrow> ('d, 'v) ndarray" where
  "getitem_tail M tail =
     (let lead = take (length (shape M) - length tail) (shape M) in
      \<lparr>shape = lead, dtype = dtype M,
       data = map (\<lambda>k. data M ! ravel_multi_index (shape M) (unravel_index lead k @ tail))
                  [0..<size_of lead]\<rparr>)"

section \<open>\<^verbatim>\<open>matrix_stack\<close>, \<^verbatim>\<open>vector_stack\<close> and \<^verbatim>\<open>matrix_stack_id\<close>\<close>

text \<open>The first loop of \<^verbatim>\<open>matrix_stack\<close>: each row is checked against \<^verbatim>\<open>Ncols\<close> before
  its elements are appended to \<^verbatim>\<open>vals\<close>.\<close>

fun collect_vals ::
  "nat \<Rightarrow> ('d, 'v) ndarray list list \<Rightarrow> error + ('d, 'v) ndarray list" where
  "collect_vals Ncols [] = Inr []"
| "collect_vals Ncols (row # rows) =
     (if length row \<noteq> Ncols then Inl RaggedInput
      else (case collect_vals Ncols rows of
              Inl e \<Rightarrow> Inl e
            | Inr vals \<Rightarrow> Inr (row @ vals)))"

text \<open>The second pair of loops: \<^verbatim>\<open>Marr[..., r_idx, c_idx] = kdm\<close> for every element.\<close>

fun fill_row ::
  "('d, 'v) numpy \<Rightarrow> ('d, 'v) ndarray \<Rightarrow> nat \<Rightarrow> nat \<Rightarrow> ('d, 'v) ndarray list
     \<Rightarrow> error + ('d, 'v) ndarray" where
  "fill_row np Marr r_idx c_idx [] = Inr Marr"
| "fill_row np Marr r_idx c_idx (kdm # row) =
     (case setitem_tail np Marr [r_idx, c_idx] kdm of
        Inl e \<Rightarrow> Inl e
      | Inr Marr' \<Rightarrow> fill_row np Marr' r_idx (c_idx + 1) row)"

fun fill_rows ::
  "('d, 'v) numpy \<Rightarrow> ('d, 'v) ndarray \<Rightarrow> nat \<Rightarrow> ('d, 'v) ndarray list list
     \<Rightarrow> error + ('d, 'v) ndarray" where
  "fill_rows np Marr r_idx [] = Inr Marr"
| "fill_rows np Marr r_idx (row # rows) =
     (case fill_row np Marr r_idx 0 row of
        Inl e \<Rightarrow> Inl e
      | Inr Marr' \<Rightarrow> fill_rows np Marr' (r_idx + 1) rows)"

text \<open>\<^verbatim>\<open>matrix_stack(arr, dtype=None)\<close>. The elements are the arrays that \<^verbatim>\<open>np.asarray\<close>
  makes of them; \<open>dtype_arg\<close> is \<open>None\<close> when no dtype is passed.\<close>

definition matrix_stack ::
  "('d, 'v) numpy \<Rightarrow> 'd option \<Rightarrow> ('d, 'v) ndarray list list \<Rightarrow> error + ('d, 'v) ndarray" where
  "matrix_stack np dtype_arg arr =
     (case arr of
        [] \<Rightarrow> Inl IndexError
      | row0 # _ \<Rightarrow>
          (let Nrows = length arr; Ncols = length row0 in
           case collect_vals Ncols arr of
             Inl e \<Rightarrow> Inl e
           | Inr vals \<Rightarrow>
               (case (case dtype_arg of None \<Rightarrow> result_type np vals | Some d \<Rightarrow> Inr d) of
                  Inl e \<Rightarrow> Inl e
                | Inr dt \<Rightarrow>
                    (case broadcast_shapes vals of
                       Inl e \<Rightarrow> Inl e
                     | Inr None \<Rightarrow> Inl TypeError
                     | Inr (Some bc) \<Rightarrow>
                         if length bc = 0 then Inr (np_array_2d np Ncols arr)
                         else fill_rows np (np_empty np (bc @ [Nrows, Ncols]) dt) 0 arr))))"

text \<open>The loop of \<^verbatim>\<open>vector_stack\<close>: \<^verbatim>\<open>Marr[..., r_idx] = rVal\<close>.\<close>

fun fill_vector ::
  "('d, 'v) numpy \<Rightarrow> ('d, 'v) ndarray \<Rightarrow> nat \<Rightarrow> ('d, 'v) ndarray list
     \<Rightarrow> error + ('d, 'v) ndarray" where
  "fill_vector np Marr r_idx [] = Inr Marr"
| "fill_vector np Marr r_idx (rVal # rest) =
     (case setitem_tail np Marr [r_idx] rVal of
        Inl e \<Rightarrow> Inl e
      | Inr Marr' \<Rightarrow> fill_vector np Marr' (r_idx + 1) rest)"

definition vector_stack ::
  "('d, 'v) numpy \<Rightarrow> 'd option \<Rightarrow> ('d, 'v) ndarray list \<Rightarrow> error + ('d, 'v) ndarray" where
  "vector_stack np dtype_arg arr =
     (let Nrows = length arr; vals = arr in
      case (case dtype_arg of None \<Rightarrow> result_type np vals | Some d \<Rightarrow> Inr d) of
        Inl e \<Rightarrow> Inl e
      | Inr dt \<Rightarrow>
          (case broadcast_shapes vals of
             Inl e \<Rightarrow> Inl e
           | Inr None \<Rightarrow> Inl TypeError
           | Inr (Some bc) \<Rightarrow>
               if length bc = 0 then Inr (np_array_1d np arr)
               else fill_vector np (np_empty np (bc @ [Nrows]) dt) 0 arr))"

text \<open>The Python literal \<^verbatim>\<open>0\<close> as an element.\<close>

definition py_zero :: "('d, 'v) numpy \<Rightarrow> ('d, 'v) ndarray" where
  "py_zero np = \<lparr>shape = [], dtype = np_int_dtype np, data = [np_zero np]\<rparr>"

text \<open>\<^verbatim>\<open>matrix_stack_id(arr, **kwargs)\<close>: row \<^verbatim>\<open>idx\<close> is \<^verbatim>\<open>[0] * len(arr)\<close> with
  \<^verbatim>\<open>lst[idx] = a\<close>.\<close>

definition id_rows :: "('d, 'v) numpy \<Rightarrow> ('d, 'v) ndarray list \<Rightarrow> ('d, 'v) ndarray list list" where
  "id_rows np arr =
     map (\<lambda>(idx, a). (replicate (length arr) (py_zero np))[idx := a]) (enumerate 0 arr)"

definition matrix_stack_id ::
  "('d, 'v) numpy \<Rightarrow> 'd option \<Rightarrow> ('d, 'v) ndarray list \<Rightarrow> error + ('d, 'v) ndarray" where
  "matrix_stack_id np dtype_arg arr = matrix_stack np dtype_arg (id_rows np arr)"


section \<open>Conflicting shapes\<close>

text \<open>Two shapes conflict when, at some position aligned from the right that both have,
  their dimensions differ and neither is 1.\<close>

definition conflict :: "shape \<Rightarrow> shape \<Rightarrow> bool" where
  "conflict a b =
     list_ex (\<lambda>p. dimr a p \<noteq> 1 \<and> dimr b p \<noteq> 1 \<and> dimr a p \<noteq> dimr b p)
             [0..<min (length a) (length b)]"

section \<open>Type promotion\<close>

text \<open>The promotion of a non-empty list of dtypes by a pairwise rule \<open>pr\<close>, from the
  left; there is none for the empty list.\<close>

definition promotion_of :: "('d \<Rightarrow> 'd \<Rightarrow> 'd) \<Rightarrow> 'd list \<Rightarrow> 'd option" where
  "promotion_of pr ds = (case ds of [] \<Rightarrow> None | d # ds' \<Rightarrow> Some (foldl pr d ds'))"

text \<open>A pairwise promotion rule is associative, commutative and idempotent: the join of
  a lattice of dtypes.\<close>

definition promotion_rule :: "('d \<Rightarrow> 'd \<Rightarrow> 'd) \<Rightarrow> bool" where
  "promotion_rule pr =
     ((\<forall>x y z. pr (pr x y) z = pr x (pr y z)) \<and> (\<forall>x y. pr x y = pr y x) \<and> (\<forall>x. pr x x = x))"

text \<open>The library promotes with \<open>pr\<close> when \<^verbatim>\<open>np.result_type\<close> and the dtype discovery of
  \<^verbatim>\<open>np.array\<close> both return the promotion of the dtypes of their arguments.\<close>

definition promotes_with :: "('d, 'v) numpy \<Rightarrow> ('d \<Rightarrow> 'd \<Rightarrow> 'd) \<Rightarrow> bool" where
  "promotes_with np pr =
     (\<forall>vals. vals \<noteq> [] \<longrightarrow>
        promotion_of pr (map dtype vals) = Some (np_result_type np vals) \<and>
        promotion_of pr (map dtype vals) = Some (np_array_dtype np vals))"

text \<open>
  Modelled from the spec: the promotion lattice of the array library, which is not part of
  the repository. Section 4.2 of the specification describes it: integer promotes to
  floating, floating promotes to complex floating, and the width promotes to the widest
  involved. A scalar type is a kind and a width in bits.
\<close>

datatype kind = Integer | Floating | ComplexFloating

datatype scalar_type = ScalarType kind nat

fun kind_rank :: "kind \<Rightarrow> nat" where
  "kind_rank Integer = 0"
| "kind_rank Floating = 1"
| "kind_rank ComplexFloating = 2"

fun promote :: "scalar_type \<Rightarrow> scalar_type \<Rightarrow> scalar_type" where
  "promote (ScalarType k w) (ScalarType k' w') =
     ScalarType (if kind_rank k \<le> kind_rank k' then k' else k) (max w w')"

definition promote_arrays :: "(scalar_type, 'v) ndarray list \<Rightarrow> scalar_type" where
  "promote_arrays vals =
     (case promotion_of promote (map dtype vals) of
        None \<Rightarrow> ScalarType Integer 64
      | Some d \<Rightarrow> d)"

text \<open>An instance of the library over integer values, which every scalar type of the
  lattice holds unchanged. The literal \<^verbatim>\<open>0\<close> is a 64-bit integer.\<close>

definition example_numpy :: "(scalar_type, int) numpy" where
  "example_numpy =
     \<lparr>np_result_type = promote_arrays, np_array_dtype = promote_arrays,
      np_astype = (\<lambda>d v. v), np_empty_fill = 0,
      np_int_dtype = ScalarType Integer 64, np_zero = 0\<rparr>"

definition scalar :: "scalar_type \<Rightarrow> int \<Rightarrow> (scalar_type, int) ndarray" where
  "scalar d v = \<lparr>shape = [], dtype = d, data = [v]\<rparr>"

definition vec :: "scalar_type \<Rightarrow> int list \<Rightarrow> (scalar_type, int) ndarray" where
  "vec d vs = \<lparr>shape = [length vs], dtype = d, data = vs\<rparr>"

definition int64 :: scalar_type where
  "int64 = ScalarType Integer 64"

definition float32 :: scalar_type where
  "float32 = ScalarType Floating 32"

definition float64 :: scalar_type where
  "float64 = ScalarType Floating 64"

text \<open>Inputs for the examples. The first is the matrix of the docstring of
  \<^verbatim>\<open>matrix_stack\<close>, with arrays of three values.\<close>

definition example_matrix :: "(scalar_type, int) ndarray list list" where
  "example_matrix =
     [[vec float32 [1, 2, 3], scalar int64 0], [scalar int64 2, vec float32 [4, 5, 6]]]"

definition example_vector :: "(scalar_type, int) ndarray list" where
  "example_vector = [vec float32 [1, 2, 3], scalar int64 0, vec int64 [7]]"

definition column :: "(scalar_type, int) ndarray" where
  "column = \<lparr>shape = [2, 1], dtype = float32, data = [1, 2]\<rparr>"

definition example_long :: "(scalar_type, int) ndarray list" where
  "example_long = replicate 70 (vec float32 [1, 2, 3]) @ [column]"

definition scalar_matrix :: "(scalar_type, int) ndarray list list" where
  "scalar_matrix = [[scalar int64 1, scalar int64 2], [scalar int64 3, scalar int64 4]]"

definition scalar_vector :: "(scalar_type, int) ndarray list" where
  "scalar_vector = [scalar int64 1, scalar float32 2, scalar int64 3]"

definition ragged_matrix :: "(scalar_type, int) ndarray list list" where
  "ragged_matrix =
     [[vec float32 [1, 2, 3], scalar int64 0],
      [scalar int64 2, vec float32 [4, 5, 6, 7], scalar int64 0]]"

definition example_diagonal :: "(scalar_type, int) ndarray list" where
  "example_diagonal = [vec float32 [1, 2, 3], vec float32 [5]]"

section \<open>Properties of the broadcasting primitive\<close>

lemma those_map_Some:
  "those (map f xs) = Some r \<longleftrightarrow> (length r = length xs \<and> (\<forall>i<length xs. f (xs ! i) = Some (r ! i)))"
proof (induction xs arbitrary: r)
  case Nil
  then show ?case by auto
next
  case (Cons x xs)
  show ?case
  proof (cases r)
    case Nil
    then show ?thesis by (auto split: option.splits)
  next
    case (Cons y ys)
    then show ?thesis using Cons.IH[of ys]
      by (auto split: option.splits simp: nth_Cons split: nat.splits)
  qed
qed

lemma those_map_None:
  "those (map f xs) = None \<longleftrightarrow> (\<exists>x\<in>set xs. f x = None)"
  by (induction xs) (auto split: option.splits)

lemma dimr_beyond: "length s \<le> p \<Longrightarrow> dimr s p = 1"
  by (simp add: dimr_def)

lemma length_le_max_rank: "s \<in> set shapes \<Longrightarrow> length s \<le> max_rank shapes"
  by (induction shapes) (auto simp: max_rank_def)

lemma max_rank_simps [simp]:
  "max_rank [] = 0" "max_rank (s # shapes) = max (length s) (max_rank shapes)"
  by (simp_all add: max_rank_def)

lemma max_rank_append [simp]: "max_rank (xs @ ys) = max (max_rank xs) (max_rank ys)"
  by (induction xs) auto

lemma dim_of_all_one: "(\<forall>d\<in>set ds. d = 1) \<Longrightarrow> dim_of ds = Some 1"
proof -
  assume "\<forall>d\<in>set ds. d = 1"
  then have "filter (\<lambda>d. d \<noteq> 1) ds = []" by (induction ds) auto
  then show ?thesis by (simp add: dim_of_def)
qed

lemma dim_of_Some_iff:
  "dim_of ds = Some d \<longleftrightarrow> (\<forall>e\<in>set ds. e = 1 \<or> e = d) \<and> (d \<noteq> 1 \<longrightarrow> d \<in> set ds)"
proof (cases "filter (\<lambda>d. d \<noteq> 1) ds")
  case Nil
  then have "\<forall>e\<in>set ds. e = 1" by (metis (mono_tags, lifting) filter_empty_conv)
  with Nil show ?thesis by (auto simp: dim_of_def)
next
  case (Cons x rest)
  then have "x \<in> set (filter (\<lambda>d. d \<noteq> 1) ds)" by simp
  then have x: "x \<in> set ds" "x \<noteq> 1" by auto
  have set: "set (x # rest) = {e \<in> set ds. e \<noteq> 1}" using Cons by (metis set_filter)
  show ?thesis
  proof
    assume "dim_of ds = Some d"
    then have d: "d = x" and all: "list_all (\<lambda>e. e = x) rest"
      using Cons by (auto simp: dim_of_def split: if_splits)
    from all have "\<forall>e\<in>set (x # rest). e = x" by (auto simp: list_all_iff)
    with set have "\<forall>e\<in>set ds. e = 1 \<or> e = x" by auto
    with d x show "(\<forall>e\<in>set ds. e = 1 \<or> e = d) \<and> (d \<noteq> 1 \<longrightarrow> d \<in> set ds)" by auto
  next
    assume a: "(\<forall>e\<in>set ds. e = 1 \<or> e = d) \<and> (d \<noteq> 1 \<longrightarrow> d \<in> set ds)"
    with x have dx: "d = x" by auto
    from a set have "\<forall>e\<in>set (x # rest). e = d" by auto
    then have "list_all (\<lambda>e. e = x) rest" using dx by (auto simp: list_all_iff)
    with Cons dx show "dim_of ds = Some d" by (simp add: dim_of_def)
  qed
qed

lemma dim_of_None_iff:
  "dim_of ds = None \<longleftrightarrow> (\<exists>x\<in>set ds. \<exists>y\<in>set ds. x \<noteq> 1 \<and> y \<noteq> 1 \<and> x \<noteq> y)"
proof
  assume n: "dim_of ds = None"
  show "\<exists>x\<in>set ds. \<exists>y\<in>set ds. x \<noteq> 1 \<and> y \<noteq> 1 \<and> x \<noteq> y"
  proof (rule ccontr)
    assume c: "\<not> ?thesis"
    show False
    proof (cases "\<exists>x\<in>set ds. x \<noteq> 1")
      case True
      then obtain x where "x \<in> set ds" "x \<noteq> 1" by auto
      with c have "dim_of ds = Some x" by (subst dim_of_Some_iff) auto
      with n show False by simp
    next
      case False
      then have "dim_of ds = Some 1" by (intro dim_of_all_one) auto
      with n show False by simp
    qed
  qed
next
  assume "\<exists>x\<in>set ds. \<exists>y\<in>set ds. x \<noteq> 1 \<and> y \<noteq> 1 \<and> x \<noteq> y"
  then obtain x y where xy: "x \<in> set ds" "y \<in> set ds" "x \<noteq> 1" "y \<noteq> 1" "x \<noteq> y" by auto
  show "dim_of ds = None"
  proof (cases "dim_of ds")
    case None then show ?thesis .
  next
    case (Some d)
    then have "\<forall>e\<in>set ds. e = 1 \<or> e = d" by (simp add: dim_of_Some_iff)
    with xy show ?thesis by auto
  qed
qed


lemma np_broadcast_shapes_Inr_iff:
  "np_broadcast_shapes shapes = Inr B \<longleftrightarrow>
     length B = max_rank shapes \<and> (\<forall>p. dim_of (map (\<lambda>s. dimr s p) shapes) = Some (dimr B p))"
proof
  assume a: "np_broadcast_shapes shapes = Inr B"
  then obtain r where r: "those (map (\<lambda>p. dim_of (map (\<lambda>s. dimr s p) shapes)) [0..<max_rank shapes]) = Some r"
    and B: "B = rev r"
    by (auto simp: np_broadcast_shapes_def split: option.splits)
  from r have len: "length r = max_rank shapes"
    and pt: "\<forall>i<max_rank shapes. dim_of (map (\<lambda>s. dimr s i) shapes) = Some (r ! i)"
    by (auto simp: those_map_Some)
  have "dim_of (map (\<lambda>s. dimr s p) shapes) = Some (dimr B p)" for p
  proof (cases "p < max_rank shapes")
    case True
    then show ?thesis using pt len B by (simp add: dimr_def)
  next
    case False
    then have "\<forall>s\<in>set shapes. dimr s p = 1"
      using length_le_max_rank by (fastforce intro: dimr_beyond)
    then have "dim_of (map (\<lambda>s. dimr s p) shapes) = Some 1"
      by (intro dim_of_all_one) auto
    moreover have "dimr B p = 1" using False len B by (simp add: dimr_def)
    ultimately show ?thesis by simp
  qed
  with len B show "length B = max_rank shapes \<and> (\<forall>p. dim_of (map (\<lambda>s. dimr s p) shapes) = Some (dimr B p))"
    by simp
next
  assume a: "length B = max_rank shapes \<and> (\<forall>p. dim_of (map (\<lambda>s. dimr s p) shapes) = Some (dimr B p))"
  then have "those (map (\<lambda>p. dim_of (map (\<lambda>s. dimr s p) shapes)) [0..<max_rank shapes]) = Some (rev B)"
    by (subst those_map_Some) (auto simp: dimr_def)
  then show "np_broadcast_shapes shapes = Inr B"
    by (simp add: np_broadcast_shapes_def)
qed

lemma np_broadcast_shapes_Inl_iff:
  "np_broadcast_shapes shapes = Inl e \<longleftrightarrow>
     e = ShapeMismatch \<and> (\<exists>p. dim_of (map (\<lambda>s. dimr s p) shapes) = None)"
proof
  assume "np_broadcast_shapes shapes = Inl e"
  then show "e = ShapeMismatch \<and> (\<exists>p. dim_of (map (\<lambda>s. dimr s p) shapes) = None)"
    by (auto simp: np_broadcast_shapes_def those_map_None split: option.splits)
next
  assume a: "e = ShapeMismatch \<and> (\<exists>p. dim_of (map (\<lambda>s. dimr s p) shapes) = None)"
  show "np_broadcast_shapes shapes = Inl e"
  proof (cases "np_broadcast_shapes shapes")
    case (Inl e')
    then show ?thesis using a by (auto simp: np_broadcast_shapes_def split: option.splits)
  next
    case (Inr B)
    then show ?thesis using a by (auto simp: np_broadcast_shapes_Inr_iff)
  qed
qed

lemma broadcast2_Inr_iff:
  "broadcast2 a b = Inr c \<longleftrightarrow>
     length c = max (length a) (length b) \<and> (\<forall>p. bc_dim (dimr a p) (dimr b p) = Some (dimr c p))"
proof
  assume "broadcast2 a b = Inr c"
  then obtain r where r: "those (map (\<lambda>p. bc_dim (dimr a p) (dimr b p)) [0..<max (length a) (length b)]) = Some r"
    and c: "c = rev r"
    by (auto simp: broadcast2_def split: option.splits)
  from r have len: "length r = max (length a) (length b)"
    and pt: "\<forall>i<max (length a) (length b). bc_dim (dimr a i) (dimr b i) = Some (r ! i)"
    by (auto simp: those_map_Some)
  have "bc_dim (dimr a p) (dimr b p) = Some (dimr c p)" for p
  proof (cases "p < max (length a) (length b)")
    case True
    then show ?thesis using pt len c by (simp add: dimr_def)
  next
    case False
    then have "length a \<le> p" "length b \<le> p" "length c \<le> p" using len c
      by (auto simp: max_def split: if_splits)
    then show ?thesis by (simp add: dimr_beyond bc_dim_def)
  qed
  with len c show "length c = max (length a) (length b) \<and> (\<forall>p. bc_dim (dimr a p) (dimr b p) = Some (dimr c p))"
    by simp
next
  assume "length c = max (length a) (length b) \<and> (\<forall>p. bc_dim (dimr a p) (dimr b p) = Some (dimr c p))"
  then have "those (map (\<lambda>p. bc_dim (dimr a p) (dimr b p)) [0..<max (length a) (length b)]) = Some (rev c)"
    by (subst those_map_Some) (auto simp: dimr_def)
  then show "broadcast2 a b = Inr c"
    by (simp add: broadcast2_def)
qed

lemma broadcast2_Inl_iff:
  "broadcast2 a b = Inl e \<longleftrightarrow> e = ShapeMismatch \<and> (\<exists>p. bc_dim (dimr a p) (dimr b p) = None)"
proof
  assume "broadcast2 a b = Inl e"
  then show "e = ShapeMismatch \<and> (\<exists>p. bc_dim (dimr a p) (dimr b p) = None)"
    by (auto simp: broadcast2_def those_map_None split: option.splits)
next
  assume a: "e = ShapeMismatch \<and> (\<exists>p. bc_dim (dimr a p) (dimr b p) = None)"
  show "broadcast2 a b = Inl e"
  proof (cases "broadcast2 a b")
    case (Inl e')
    then show ?thesis using a by (auto simp: broadcast2_def split: option.splits)
  next
    case (Inr B)
    then show ?thesis using a by (auto simp: broadcast2_Inr_iff)
  qed
qed

lemma dim_of_snoc: "dim_of ds = Some d \<Longrightarrow> dim_of (ds @ [x]) = bc_dim d x"
proof -
  assume a: "dim_of ds = Some d"
  then have all: "\<forall>e\<in>set ds. e = 1 \<or> e = d" and mem: "d \<noteq> 1 \<longrightarrow> d \<in> set ds"
    by (simp_all add: dim_of_Some_iff)
  show ?thesis
  proof (cases "bc_dim d x")
    case None
    then have "d \<noteq> 1" "x \<noteq> 1" "d \<noteq> x" by (auto simp: bc_dim_def split: if_splits)
    with mem have "dim_of (ds @ [x]) = None"
      by (subst dim_of_None_iff) auto
    with None show ?thesis by simp
  next
    case (Some c)
    then have "dim_of (ds @ [x]) = Some c" using all mem
      by (subst dim_of_Some_iff) (auto simp: bc_dim_def split: if_splits)
    with Some show ?thesis by simp
  qed
qed

lemma dim_of_snoc_None: "dim_of ds = None \<Longrightarrow> dim_of (ds @ xs) = None"
  by (auto simp: dim_of_None_iff)

lemma np_broadcast_shapes_snoc:
  "np_broadcast_shapes (shapes @ [s]) = fold_step (np_broadcast_shapes shapes) s"
proof (cases "np_broadcast_shapes shapes")
  case (Inl e)
  then have "np_broadcast_shapes (shapes @ [s]) = Inl e"
    by (auto simp: np_broadcast_shapes_Inl_iff intro: dim_of_snoc_None)
  with Inl show ?thesis by (simp add: fold_step_def)
next
  case (Inr b)
  then have len: "length b = max_rank shapes"
    and pt: "\<And>p. dim_of (map (\<lambda>s. dimr s p) shapes) = Some (dimr b p)"
    by (simp_all add: np_broadcast_shapes_Inr_iff)
  have snoc: "dim_of (map (\<lambda>s. dimr s p) (shapes @ [s])) = bc_dim (dimr b p) (dimr s p)" for p
    using dim_of_snoc[OF pt[of p], of "dimr s p"] by simp
  show ?thesis
  proof (cases "broadcast2 b s")
    case (Inl e)
    then obtain p where e: "e = ShapeMismatch" and "bc_dim (dimr b p) (dimr s p) = None"
      by (auto simp: broadcast2_Inl_iff)
    then have "dim_of (map (\<lambda>s. dimr s p) (shapes @ [s])) = None"
      by (simp only: snoc)
    then have "np_broadcast_shapes (shapes @ [s]) = Inl e"
      unfolding np_broadcast_shapes_Inl_iff using e by blast
    with Inl Inr show ?thesis by (simp add: fold_step_def)
  next
    case (Inr c)
    then have "length c = max (length b) (length s)"
      and "\<And>p. bc_dim (dimr b p) (dimr s p) = Some (dimr c p)"
      by (simp_all add: broadcast2_Inr_iff)
    then have "length c = max_rank (shapes @ [s])"
      and "\<And>p. dim_of (map (\<lambda>s. dimr s p) (shapes @ [s])) = Some (dimr c p)"
      using len by (simp_all only: snoc max_rank_append max_rank_simps max_0R)
    then have "np_broadcast_shapes (shapes @ [s]) = Inr c"
      unfolding np_broadcast_shapes_Inr_iff by blast
    with Inr \<open>np_broadcast_shapes shapes = Inr b\<close> show ?thesis by (simp add: fold_step_def)
  qed
qed

lemma np_broadcast_shapes_Nil: "np_broadcast_shapes [] = Inr []"
  by (simp add: np_broadcast_shapes_def)

lemma np_broadcast_shapes_eq_fold: "np_broadcast_shapes shapes = broadcast_fold shapes"
proof (induction shapes rule: rev_induct)
  case Nil
  show ?case by (simp add: np_broadcast_shapes_Nil broadcast_fold_def)
next
  case (snoc s shapes)
  then show ?case by (simp add: np_broadcast_shapes_snoc broadcast_fold_def)
qed

lemma foldl_fold_step_Inl: "foldl fold_step (Inl e) xs = Inl e"
  by (induction xs) (simp_all add: fold_step_def)

lemma broadcast2_Nil_left: "broadcast2 [] b = Inr b"
  by (simp add: broadcast2_Inr_iff bc_dim_def dimr_def)

lemma np_broadcast_shapes_append:
  "np_broadcast_shapes (xs @ ys) = foldl fold_step (np_broadcast_shapes xs) ys"
  by (simp add: np_broadcast_shapes_eq_fold broadcast_fold_def)

lemma np_broadcast_shapes_Cons:
  "np_broadcast_shapes (b # xs) = foldl fold_step (Inr b) xs"
  by (simp add: np_broadcast_shapes_eq_fold broadcast_fold_def fold_step_def broadcast2_Nil_left)

lemma np_broadcast_shapes_prefix_Inl:
  "np_broadcast_shapes xs = Inl e \<Longrightarrow> np_broadcast_shapes (xs @ ys) = Inl e"
  by (simp add: np_broadcast_shapes_append foldl_fold_step_Inl)

lemma take_add_window: "take (idx + w) xs = take idx xs @ take w (drop idx xs)"
  by (simp add: take_add)

lemma window_running:
  assumes "np_broadcast_shapes (map shape (take idx mlist)) = Inr b"
  shows "np_broadcast_shapes (b # map shape (take w (drop idx mlist)))
           = np_broadcast_shapes (map shape (take (idx + w) mlist))"
  using assms by (simp add: take_add_window np_broadcast_shapes_append np_broadcast_shapes_Cons)

lemma window_fresh:
  assumes "np_broadcast_shapes (map shape (take idx mlist)) = Inr []"
  shows "np_broadcast_shapes (map shape (take w (drop idx mlist)))
           = np_broadcast_shapes (map shape (take (idx + w) mlist))"
  using assms
  by (simp add: take_add_window np_broadcast_shapes_append)
     (simp add: np_broadcast_shapes_eq_fold broadcast_fold_def)

lemma np_broadcast_shapes_take_Inl:
  assumes "np_broadcast_shapes (map shape (take k mlist)) = Inl e"
  shows "np_broadcast_shapes (map shape mlist) = Inl e"
proof -
  have "map shape mlist = map shape (take k mlist) @ map shape (drop k mlist)"
    by (simp flip: map_append)
  then show ?thesis using np_broadcast_shapes_prefix_Inl[OF assms] by simp
qed

lemma broadcast_shapes_loop_running:
  "bc = Some b \<Longrightarrow> 0 < idx \<Longrightarrow> np_broadcast_shapes (map shape (take idx mlist)) = Inr b \<Longrightarrow>
   broadcast_shapes_loop mlist idx bc = map_sum id Some (np_broadcast_shapes (map shape mlist))"
proof (induction mlist idx bc arbitrary: b rule: broadcast_shapes_loop.induct)
  case (1 mlist idx bc)
  show ?case
  proof (cases "idx < length mlist")
    case False
    then show ?thesis using "1.prems" by (subst broadcast_shapes_loop.simps) simp
  next
    case True
    define w where "w = (if b = [] then 32 else 31 :: nat)"
    define res where "res = np_broadcast_shapes (map shape (take (idx + w) mlist))"
    have body: "broadcast_shapes_body mlist idx bc =
                  (case res of Inl e \<Rightarrow> Inl e | Inr b' \<Rightarrow> Inr (idx + w, b'))"
      using "1.prems" window_running[of idx mlist b 31] window_fresh[of idx mlist 32]
      by (auto simp: broadcast_shapes_body_def w_def res_def split: sum.splits)
    show ?thesis
    proof (cases res)
      case (Inl e)
      then have "np_broadcast_shapes (map shape mlist) = Inl e"
        unfolding res_def by (rule np_broadcast_shapes_take_Inl)
      then show ?thesis using True body Inl
        by (subst broadcast_shapes_loop.simps) simp
    next
      case (Inr b')
      have "broadcast_shapes_loop mlist (idx + w) (Some b')
              = map_sum id Some (np_broadcast_shapes (map shape mlist))"
        using "1.IH"[of "(idx + w, b')" "idx + w" b' b'] True body Inr "1.prems"
        by (simp add: res_def id_def)
      then show ?thesis using True body Inr
        by (subst broadcast_shapes_loop.simps) simp
    qed
  qed
qed

lemma broadcast_shapes_nonempty:
  assumes "mlist \<noteq> []"
  shows "broadcast_shapes mlist = map_sum id Some (np_broadcast_shapes (map shape mlist))"
proof -
  define res where "res = np_broadcast_shapes (map shape (take 32 mlist))"
  have body: "broadcast_shapes_body mlist 0 None =
                (case res of Inl e \<Rightarrow> Inl e | Inr b' \<Rightarrow> Inr (32, b'))"
    by (simp add: broadcast_shapes_body_def res_def split: sum.splits)
  show ?thesis
  proof (cases res)
    case (Inl e)
    then have "np_broadcast_shapes (map shape mlist) = Inl e"
      unfolding res_def by (rule np_broadcast_shapes_take_Inl)
    then show ?thesis using assms body Inl
      unfolding broadcast_shapes_def by (subst broadcast_shapes_loop.simps) simp
  next
    case (Inr b')
    then have "broadcast_shapes_loop mlist 32 (Some b')
              = map_sum id Some (np_broadcast_shapes (map shape mlist))"
      by (intro broadcast_shapes_loop_running) (simp_all add: res_def)
    then show ?thesis using assms body Inr
      unfolding broadcast_shapes_def by (subst broadcast_shapes_loop.simps) simp
  qed
qed

lemma broadcast_shapes_Nil: "broadcast_shapes [] = Inr None"
  unfolding broadcast_shapes_def by (subst broadcast_shapes_loop.simps) simp

section \<open>Properties of indexing and assignment\<close>

lemma size_of_simps [simp]: "size_of [] = 1" "size_of (n # ns) = n * size_of ns"
  by (simp_all add: size_of_def)

lemma in_bounds_simps [simp]:
  "in_bounds [] [] = True"
  "in_bounds (i # idx) (n # ns) = (i < n \<and> in_bounds idx ns)"
  "in_bounds [] (n # ns) = False"
  "in_bounds (i # idx) [] = False"
  by (simp_all add: in_bounds_def)

lemma in_bounds_length: "in_bounds idx s \<Longrightarrow> length idx = length s"
  by (simp add: in_bounds_def list_all2_lengthD)

lemma in_bounds_append:
  "length idx = length s \<Longrightarrow> in_bounds (idx @ tail) (s @ ts) = (in_bounds idx s \<and> in_bounds tail ts)"
  by (simp add: in_bounds_def list_all2_append)

lemma length_unravel_index [simp]: "length (unravel_index s k) = length s"
  by (induction s arbitrary: k) simp_all

lemma ravel_lt: "in_bounds idx s \<Longrightarrow> ravel_multi_index s idx < size_of s"
proof (induction s arbitrary: idx)
  case Nil
  then show ?case by (cases idx) simp_all
next
  case (Cons n ns)
  then obtain i js where idx: "idx = i # js" by (cases idx) simp_all
  with Cons have i: "i < n" and r: "ravel_multi_index ns js < size_of ns" by simp_all
  have "i * size_of ns + ravel_multi_index ns js < i * size_of ns + size_of ns"
    using r by simp
  also have "\<dots> = Suc i * size_of ns" by simp
  also have "\<dots> \<le> n * size_of ns" using i by (intro mult_le_mono1) simp
  finally show ?case using idx by simp
qed

lemma unravel_ravel: "in_bounds idx s \<Longrightarrow> unravel_index s (ravel_multi_index s idx) = idx"
proof (induction s arbitrary: idx)
  case Nil
  then show ?case by (cases idx) simp_all
next
  case (Cons n ns)
  then obtain i js where idx: "idx = i # js" by (cases idx) simp_all
  with Cons.prems have r: "ravel_multi_index ns js < size_of ns" by (simp add: ravel_lt)
  then show ?case using Cons idx by simp
qed

lemma unravel_in_bounds: "k < size_of s \<Longrightarrow> in_bounds (unravel_index s k) s"
proof (induction s arbitrary: k)
  case Nil
  then show ?case by simp
next
  case (Cons n ns)
  from Cons.prems have pos: "0 < size_of ns" by (cases "size_of ns = 0") simp_all
  have "k div size_of ns < n"
    using Cons.prems pos by (simp add: less_mult_imp_div_less mult.commute)
  moreover have "in_bounds (unravel_index ns (k mod size_of ns)) ns"
    using pos by (intro Cons.IH) simp
  ultimately show ?case by simp
qed



lemma setitem_tail_Inr:
  assumes "shape M = lead @ ts" "length tail = length ts" "in_bounds tail ts"
    "broadcastable (shape kdm) lead"
  shows "setitem_tail np M tail kdm =
           Inr (M\<lparr>data := map (\<lambda>k. if drop (length lead) (unravel_index (shape M) k) = tail
                                    then np_astype np (dtype M)
                                           (bc_item kdm (take (length lead) (unravel_index (shape M) k)))
                                    else data M ! k) [0..<length (data M)]\<rparr>)"
  using assms by (simp add: setitem_tail_def Let_def)

lemma getitem_tail_data:
  assumes "shape M = lead @ ts" "length tail = length ts"
  shows "getitem_tail M tail =
           \<lparr>shape = lead, dtype = dtype M,
            data = map (\<lambda>k. data M ! ravel_multi_index (lead @ ts) (unravel_index lead k @ tail))
                       [0..<size_of lead]\<rparr>"
  using assms by (simp add: getitem_tail_def Let_def)

lemma slot_index:
  assumes "in_bounds tail ts" "k < size_of lead"
  shows "ravel_multi_index (lead @ ts) (unravel_index lead k @ tail) < size_of (lead @ ts)"
    and "unravel_index (lead @ ts) (ravel_multi_index (lead @ ts) (unravel_index lead k @ tail))
           = unravel_index lead k @ tail"
proof -
  have "in_bounds (unravel_index lead k @ tail) (lead @ ts)"
    using assms by (simp add: in_bounds_append unravel_in_bounds)
  then show "ravel_multi_index (lead @ ts) (unravel_index lead k @ tail) < size_of (lead @ ts)"
    and "unravel_index (lead @ ts) (ravel_multi_index (lead @ ts) (unravel_index lead k @ tail))
           = unravel_index lead k @ tail"
    by (simp_all add: ravel_lt unravel_ravel)
qed

lemma setitem_tail_props:
  assumes sh: "shape M = lead @ ts" and len: "length tail = length ts"
    and inb: "in_bounds tail ts" and bc: "broadcastable (shape kdm) lead"
    and wf: "well_formed M"
  shows "\<exists>M'. setitem_tail np M tail kdm = Inr M' \<and> shape M' = shape M \<and> dtype M' = dtype M
            \<and> well_formed M'
            \<and> getitem_tail M' tail = astype np (dtype M) (broadcast_view kdm lead)
            \<and> (\<forall>tail'. in_bounds tail' ts \<and> tail' \<noteq> tail
                  \<longrightarrow> getitem_tail M' tail' = getitem_tail M tail')"
proof -
  define M' where "M' = M\<lparr>data := map (\<lambda>k. if drop (length lead) (unravel_index (shape M) k) = tail
                                    then np_astype np (dtype M)
                                           (bc_item kdm (take (length lead) (unravel_index (shape M) k)))
                                    else data M ! k) [0..<length (data M)]\<rparr>"
  have set: "setitem_tail np M tail kdm = Inr M'"
    unfolding M'_def by (rule setitem_tail_Inr[OF sh len inb bc])
  have sh': "shape M' = lead @ ts" and dt': "dtype M' = dtype M"
    and wf': "well_formed M'"
    using sh wf by (simp_all add: M'_def well_formed_def)
  have dlen: "length (data M) = size_of (lead @ ts)"
    using wf sh by (simp add: well_formed_def)
  have item: "data M' ! ravel_multi_index (lead @ ts) (unravel_index lead k @ tail')
                = (if tail' = tail then np_astype np (dtype M) (bc_item kdm (unravel_index lead k))
                   else data M ! ravel_multi_index (lead @ ts) (unravel_index lead k @ tail'))"
    if "in_bounds tail' ts" "k < size_of lead" for tail' k
  proof -
    define j where "j = ravel_multi_index (lead @ ts) (unravel_index lead k @ tail')"
    have j: "j < size_of (lead @ ts)" "unravel_index (lead @ ts) j = unravel_index lead k @ tail'"
      unfolding j_def using slot_index[OF that] by simp_all
    have "data M' ! j = (if drop (length lead) (unravel_index (shape M) j) = tail
                         then np_astype np (dtype M)
                                (bc_item kdm (take (length lead) (unravel_index (shape M) j)))
                         else data M ! j)"
      using j(1) dlen by (simp add: M'_def)
    then have "data M' ! j = (if tail' = tail
                              then np_astype np (dtype M) (bc_item kdm (unravel_index lead k))
                              else data M ! j)"
      using j(2) sh by simp
    then show ?thesis unfolding j_def .
  qed
  have same: "getitem_tail M' tail = astype np (dtype M) (broadcast_view kdm lead)"
    using item[OF inb] dt'
    by (simp add: getitem_tail_data[OF sh' len] astype_def broadcast_view_def)
  have other: "getitem_tail M' tail' = getitem_tail M tail'"
    if "in_bounds tail' ts" "tail' \<noteq> tail" for tail'
  proof -
    have l: "length tail' = length ts" using that by (simp add: in_bounds_length)
    show ?thesis
      using item[OF that(1)] that(2) dt'
      by (simp add: getitem_tail_data[OF sh' l] getitem_tail_data[OF sh l])
  qed
  show ?thesis using set sh sh' dt' wf' same other by auto
qed

section \<open>The filling loops\<close>

lemma fill_row_props:
  assumes "shape M = lead @ [R, C]" "well_formed M" "r < R" "c + length row \<le> C"
    "\<forall>k\<in>set row. broadcastable (shape k) lead"
  shows "\<exists>M'. fill_row np M r c row = Inr M' \<and> shape M' = shape M \<and> dtype M' = dtype M
            \<and> well_formed M'
            \<and> (\<forall>j<length row. getitem_tail M' [r, c + j]
                                  = astype np (dtype M) (broadcast_view (row ! j) lead))
            \<and> (\<forall>r' c'. r' < R \<and> c' < C \<and> \<not> (r' = r \<and> c \<le> c' \<and> c' < c + length row)
                  \<longrightarrow> getitem_tail M' [r', c'] = getitem_tail M [r', c'])"
  using assms
proof (induction row arbitrary: M c)
  case Nil
  then show ?case by simp
next
  case (Cons kdm row)
  have inb: "in_bounds [r, c] [R, C]" using Cons.prems by simp
  have bc: "broadcastable (shape kdm) lead" using Cons.prems by simp
  obtain M1 where M1: "setitem_tail np M [r, c] kdm = Inr M1" "shape M1 = shape M"
    "dtype M1 = dtype M" "well_formed M1"
    "getitem_tail M1 [r, c] = astype np (dtype M) (broadcast_view kdm lead)"
    and M1o: "\<And>tail'. in_bounds tail' [R, C] \<Longrightarrow> tail' \<noteq> [r, c]
                \<Longrightarrow> getitem_tail M1 tail' = getitem_tail M tail'"
    using setitem_tail_props[OF Cons.prems(1) _ inb bc Cons.prems(2), of np] by auto
  have "\<exists>M'. fill_row np M1 r (c + 1) row = Inr M' \<and> shape M' = shape M1 \<and> dtype M' = dtype M1
            \<and> well_formed M'
            \<and> (\<forall>j<length row. getitem_tail M' [r, (c + 1) + j]
                                  = astype np (dtype M1) (broadcast_view (row ! j) lead))
            \<and> (\<forall>r' c'. r' < R \<and> c' < C \<and> \<not> (r' = r \<and> c + 1 \<le> c' \<and> c' < (c + 1) + length row)
                  \<longrightarrow> getitem_tail M' [r', c'] = getitem_tail M1 [r', c'])"
    using Cons.prems M1 by (intro Cons.IH) simp_all
  then obtain M2 where M2: "fill_row np M1 r (c + 1) row = Inr M2" "shape M2 = shape M1"
    "dtype M2 = dtype M1" "well_formed M2"
    and M2s: "\<And>j. j < length row \<Longrightarrow> getitem_tail M2 [r, (c + 1) + j]
                                  = astype np (dtype M1) (broadcast_view (row ! j) lead)"
    and M2o: "\<And>r' c'. r' < R \<Longrightarrow> c' < C \<Longrightarrow> \<not> (r' = r \<and> c + 1 \<le> c' \<and> c' < (c + 1) + length row)
                  \<Longrightarrow> getitem_tail M2 [r', c'] = getitem_tail M1 [r', c']"
    by blast
  have fill: "fill_row np M r c (kdm # row) = Inr M2" using M1(1) M2(1) by simp
  have slots: "getitem_tail M2 [r, c + j] = astype np (dtype M) (broadcast_view ((kdm # row) ! j) lead)"
    if "j < length (kdm # row)" for j
  proof (cases j)
    case 0
    have "getitem_tail M2 [r, c] = getitem_tail M1 [r, c]"
      using Cons.prems by (intro M2o) simp_all
    then show ?thesis using 0 M1(5) by simp
  next
    case (Suc j')
    then show ?thesis using M2s[of j'] that M1(3) by simp
  qed
  have others: "getitem_tail M2 [r', c'] = getitem_tail M [r', c']"
    if "r' < R" "c' < C" "\<not> (r' = r \<and> c \<le> c' \<and> c' < c + length (kdm # row))" for r' c'
  proof -
    have "getitem_tail M2 [r', c'] = getitem_tail M1 [r', c']"
      using that by (intro M2o) auto
    also have "\<dots> = getitem_tail M [r', c']"
      using that by (intro M1o) auto
    finally show ?thesis .
  qed
  show ?case using fill M2 M1 slots others by auto
qed


lemma fill_rows_props:
  assumes "shape M = lead @ [R, C]" "well_formed M" "r + length rows \<le> R"
    "\<forall>row\<in>set rows. length row = C \<and> (\<forall>k\<in>set row. broadcastable (shape k) lead)"
  shows "\<exists>M'. fill_rows np M r rows = Inr M' \<and> shape M' = shape M \<and> dtype M' = dtype M
            \<and> well_formed M'
            \<and> (\<forall>i<length rows. \<forall>j<C. getitem_tail M' [r + i, j]
                                  = astype np (dtype M) (broadcast_view (rows ! i ! j) lead))
            \<and> (\<forall>r' c'. r' < r \<and> c' < C \<longrightarrow> getitem_tail M' [r', c'] = getitem_tail M [r', c'])"
  using assms
proof (induction rows arbitrary: M r)
  case Nil
  then show ?case by simp
next
  case (Cons row rows)
  have "\<exists>M'. fill_row np M r 0 row = Inr M' \<and> shape M' = shape M \<and> dtype M' = dtype M
            \<and> well_formed M'
            \<and> (\<forall>j<length row. getitem_tail M' [r, 0 + j]
                                  = astype np (dtype M) (broadcast_view (row ! j) lead))
            \<and> (\<forall>r' c'. r' < R \<and> c' < C \<and> \<not> (r' = r \<and> 0 \<le> c' \<and> c' < 0 + length row)
                  \<longrightarrow> getitem_tail M' [r', c'] = getitem_tail M [r', c'])"
    using Cons.prems by (intro fill_row_props) simp_all
  then obtain M1 where M1: "fill_row np M r 0 row = Inr M1" "shape M1 = shape M"
    "dtype M1 = dtype M" "well_formed M1"
    and M1s: "\<And>j. j < C \<Longrightarrow> getitem_tail M1 [r, j]
                                  = astype np (dtype M) (broadcast_view (row ! j) lead)"
    and M1o: "\<And>r' c'. r' < R \<Longrightarrow> c' < C \<Longrightarrow> r' \<noteq> r
                  \<Longrightarrow> getitem_tail M1 [r', c'] = getitem_tail M [r', c']"
    using Cons.prems(4) by auto
  have "\<exists>M'. fill_rows np M1 (r + 1) rows = Inr M' \<and> shape M' = shape M1 \<and> dtype M' = dtype M1
            \<and> well_formed M'
            \<and> (\<forall>i<length rows. \<forall>j<C. getitem_tail M' [(r + 1) + i, j]
                                  = astype np (dtype M1) (broadcast_view (rows ! i ! j) lead))
            \<and> (\<forall>r' c'. r' < r + 1 \<and> c' < C
                  \<longrightarrow> getitem_tail M' [r', c'] = getitem_tail M1 [r', c'])"
    using Cons.prems M1 by (intro Cons.IH) simp_all
  then obtain M2 where M2: "fill_rows np M1 (r + 1) rows = Inr M2" "shape M2 = shape M1"
    "dtype M2 = dtype M1" "well_formed M2"
    and M2s: "\<And>i j. i < length rows \<Longrightarrow> j < C \<Longrightarrow> getitem_tail M2 [(r + 1) + i, j]
                                  = astype np (dtype M1) (broadcast_view (rows ! i ! j) lead)"
    and M2o: "\<And>r' c'. r' < r + 1 \<Longrightarrow> c' < C
                  \<Longrightarrow> getitem_tail M2 [r', c'] = getitem_tail M1 [r', c']"
    by blast
  have fill: "fill_rows np M r (row # rows) = Inr M2" using M1(1) M2(1) by simp
  have slots: "getitem_tail M2 [r + i, j]
                 = astype np (dtype M) (broadcast_view ((row # rows) ! i ! j) lead)"
    if "i < length (row # rows)" "j < C" for i j
  proof (cases i)
    case 0
    have "getitem_tail M2 [r, j] = getitem_tail M1 [r, j]"
      using that by (intro M2o) simp_all
    then show ?thesis using 0 M1s[OF that(2)] by simp
  next
    case (Suc i')
    then show ?thesis using M2s[of i' j] that M1(3) by simp
  qed
  have others: "getitem_tail M2 [r', c'] = getitem_tail M [r', c']"
    if "r' < r" "c' < C" for r' c'
  proof -
    have "getitem_tail M2 [r', c'] = getitem_tail M1 [r', c']"
      using that by (intro M2o) auto
    also have "\<dots> = getitem_tail M [r', c']"
      using that Cons.prems(3) by (intro M1o) auto
    finally show ?thesis .
  qed
  show ?case using fill M2 M1 slots others by auto
qed

lemma fill_vector_props:
  assumes "shape M = lead @ [N]" "well_formed M" "r + length xs \<le> N"
    "\<forall>k\<in>set xs. broadcastable (shape k) lead"
  shows "\<exists>M'. fill_vector np M r xs = Inr M' \<and> shape M' = shape M \<and> dtype M' = dtype M
            \<and> well_formed M'
            \<and> (\<forall>i<length xs. getitem_tail M' [r + i]
                                  = astype np (dtype M) (broadcast_view (xs ! i) lead))
            \<and> (\<forall>r'. r' < r \<longrightarrow> getitem_tail M' [r'] = getitem_tail M [r'])"
  using assms
proof (induction xs arbitrary: M r)
  case Nil
  then show ?case by simp
next
  case (Cons rVal xs)
  have inb: "in_bounds [r] [N]" using Cons.prems by simp
  have bc: "broadcastable (shape rVal) lead" using Cons.prems by simp
  obtain M1 where M1: "setitem_tail np M [r] rVal = Inr M1" "shape M1 = shape M"
    "dtype M1 = dtype M" "well_formed M1"
    "getitem_tail M1 [r] = astype np (dtype M) (broadcast_view rVal lead)"
    and M1o: "\<And>tail'. in_bounds tail' [N] \<Longrightarrow> tail' \<noteq> [r]
                \<Longrightarrow> getitem_tail M1 tail' = getitem_tail M tail'"
    using setitem_tail_props[OF Cons.prems(1) _ inb bc Cons.prems(2), of np] by auto
  have "\<exists>M'. fill_vector np M1 (r + 1) xs = Inr M' \<and> shape M' = shape M1 \<and> dtype M' = dtype M1
            \<and> well_formed M'
            \<and> (\<forall>i<length xs. getitem_tail M' [(r + 1) + i]
                                  = astype np (dtype M1) (broadcast_view (xs ! i) lead))
            \<and> (\<forall>r'. r' < r + 1 \<longrightarrow> getitem_tail M' [r'] = getitem_tail M1 [r'])"
    using Cons.prems M1 by (intro Cons.IH) simp_all
  then obtain M2 where M2: "fill_vector np M1 (r + 1) xs = Inr M2" "shape M2 = shape M1"
    "dtype M2 = dtype M1" "well_formed M2"
    and M2s: "\<And>i. i < length xs \<Longrightarrow> getitem_tail M2 [(r + 1) + i]
                                  = astype np (dtype M1) (broadcast_view (xs ! i) lead)"
    and M2o: "\<And>r'. r' < r + 1 \<Longrightarrow> getitem_tail M2 [r'] = getitem_tail M1 [r']"
    by blast
  have fill: "fill_vector np M r (rVal # xs) = Inr M2" using M1(1) M2(1) by simp
  have slots: "getitem_tail M2 [r + i] = astype np (dtype M) (broadcast_view ((rVal # xs) ! i) lead)"
    if "i < length (rVal # xs)" for i
  proof (cases i)
    case 0
    have "getitem_tail M2 [r] = getitem_tail M1 [r]" by (intro M2o) simp
    then show ?thesis using 0 M1(5) by simp
  next
    case (Suc i')
    then show ?thesis using M2s[of i'] that M1(3) by simp
  qed
  have others: "getitem_tail M2 [r'] = getitem_tail M [r']" if "r' < r" for r'
  proof -
    have "getitem_tail M2 [r'] = getitem_tail M1 [r']" using that by (intro M2o) simp
    also have "\<dots> = getitem_tail M [r']"
      using that Cons.prems(3) by (intro M1o) auto
    finally show ?thesis .
  qed
  show ?case using fill M2 M1 slots others by auto
qed

lemma broadcastable_iff:
  "broadcastable s B \<longleftrightarrow> length s \<le> length B \<and> (\<forall>p. dimr s p = 1 \<or> dimr s p = dimr B p)"
proof -
  have "(\<forall>p\<in>{0..<length s}. dimr s p = 1 \<or> dimr s p = dimr B p)
          \<longleftrightarrow> (\<forall>p. dimr s p = 1 \<or> dimr s p = dimr B p)"
    by (metis atLeastLessThan_iff dimr_beyond not_le zero_le)
  then show ?thesis by (simp add: broadcastable_def list_all_iff del: One_nat_def)
qed

lemma np_broadcast_shapes_broadcastable:
  assumes "np_broadcast_shapes shapes = Inr B" "s \<in> set shapes"
  shows "broadcastable s B"
proof -
  from assms(1) have len: "length B = max_rank shapes"
    and pt: "\<And>p. dim_of (map (\<lambda>s. dimr s p) shapes) = Some (dimr B p)"
    by (simp_all add: np_broadcast_shapes_Inr_iff)
  have "dimr s p = 1 \<or> dimr s p = dimr B p" for p
    using pt[of p] assms(2) by (auto simp: dim_of_Some_iff)
  moreover have "length s \<le> length B"
    using len length_le_max_rank[OF assms(2)] by simp
  ultimately show ?thesis by (simp add: broadcastable_iff)
qed

lemma collect_vals_rectangular:
  "\<forall>row\<in>set arr. length row = C \<Longrightarrow> collect_vals C arr = Inr (concat arr)"
  by (induction arr) simp_all

lemma collect_vals_ragged:
  "\<exists>row\<in>set arr. length row \<noteq> C \<Longrightarrow> collect_vals C arr = Inl RaggedInput"
  by (induction arr) (auto split: sum.splits)

section \<open>The stackers in closed form\<close>

lemma well_formed_np_empty: "well_formed (np_empty np s dt)"
  by (simp add: well_formed_def np_empty_def)

lemma np_empty_sel [simp]: "shape (np_empty np s dt) = s" "dtype (np_empty np s dt) = dt"
  by (simp_all add: np_empty_def)

lemma np_broadcast_shapes_conflict:
  assumes "a \<in> set shapes" "b \<in> set shapes" "conflict a b"
  shows "np_broadcast_shapes shapes = Inl ShapeMismatch"
proof -
  from assms(3) obtain p where p: "dimr a p \<noteq> 1" "dimr b p \<noteq> 1" "dimr a p \<noteq> dimr b p"
    by (auto simp: conflict_def list_ex_iff)
  have "dimr a p \<in> set (map (\<lambda>s. dimr s p) shapes)" "dimr b p \<in> set (map (\<lambda>s. dimr s p) shapes)"
    using assms(1,2) by auto
  with p have "dim_of (map (\<lambda>s. dimr s p) shapes) = None"
    unfolding dim_of_None_iff by blast
  then show ?thesis unfolding np_broadcast_shapes_Inl_iff by blast
qed

lemma matrix_stack_rect:
  assumes "arr \<noteq> []" "\<forall>row\<in>set arr. length row = C" "concat arr \<noteq> []"
  shows "matrix_stack np dtype_arg arr =
           (case np_broadcast_shapes (map shape (concat arr)) of
              Inl e \<Rightarrow> Inl e
            | Inr bc \<Rightarrow>
                if bc = [] then Inr (np_array_2d np C arr)
                else fill_rows np (np_empty np (bc @ [length arr, C])
                       (case dtype_arg of None \<Rightarrow> np_result_type np (concat arr) | Some d \<Rightarrow> d))
                       0 arr)"
proof -
  obtain row0 rest where arr: "arr = row0 # rest" using assms(1) by (cases arr) auto
  have C: "length row0 = C" using assms(2) arr by simp
  have cv: "collect_vals C arr = Inr (concat arr)"
    using assms(2) by (rule collect_vals_rectangular)
  have dt: "(case dtype_arg of None \<Rightarrow> result_type np (concat arr) | Some d \<Rightarrow> Inr d)
              = Inr (case dtype_arg of None \<Rightarrow> np_result_type np (concat arr) | Some d \<Rightarrow> d)"
    using assms(3) by (cases dtype_arg) (simp_all add: result_type_def)
  have bs: "broadcast_shapes (concat arr)
              = map_sum id Some (np_broadcast_shapes (map shape (concat arr)))"
    using assms(3) by (rule broadcast_shapes_nonempty)
  show ?thesis
    unfolding matrix_stack_def arr list.case Let_def C
    unfolding arr[symmetric] cv sum.case dt bs
    by (cases "np_broadcast_shapes (map shape (concat arr))") simp_all
qed

lemma vector_stack_nonempty:
  assumes "arr \<noteq> []"
  shows "vector_stack np dtype_arg arr =
           (case np_broadcast_shapes (map shape arr) of
              Inl e \<Rightarrow> Inl e
            | Inr bc \<Rightarrow>
                if bc = [] then Inr (np_array_1d np arr)
                else fill_vector np (np_empty np (bc @ [length arr])
                       (case dtype_arg of None \<Rightarrow> np_result_type np arr | Some d \<Rightarrow> d))
                       0 arr)"
proof -
  have dt: "(case dtype_arg of None \<Rightarrow> result_type np arr | Some d \<Rightarrow> Inr d)
              = Inr (case dtype_arg of None \<Rightarrow> np_result_type np arr | Some d \<Rightarrow> d)"
    using assms by (simp add: result_type_def split: option.splits)
  have bs: "broadcast_shapes arr = map_sum id Some (np_broadcast_shapes (map shape arr))"
    using assms by (rule broadcast_shapes_nonempty)
  show ?thesis
    unfolding vector_stack_def Let_def dt sum.case bs
    by (cases "np_broadcast_shapes (map shape arr)") simp_all
qed

lemma ragged_rows_rejected:
  assumes "\<exists>row\<in>set arr. length row \<noteq> length (hd arr)"
  shows "matrix_stack np dtype_arg arr = Inl RaggedInput"
proof -
  from assms obtain row0 rest where arr: "arr = row0 # rest" by (cases arr) auto
  have "collect_vals (length row0) arr = Inl RaggedInput"
    using assms arr by (intro collect_vals_ragged) simp
  then show ?thesis by (simp add: matrix_stack_def arr)
qed

lemma np_broadcast_shapes_all_scalar:
  assumes "\<forall>s\<in>set shapes. s = []"
  shows "np_broadcast_shapes shapes = Inr []"
proof -
  have "max_rank shapes = 0" using assms by (induction shapes) auto
  moreover have "dim_of (map (\<lambda>s. dimr s p) shapes) = Some (dimr [] p)" for p
    using assms by (intro dim_of_Some_iff[THEN iffD2]) (auto simp: dimr_def)
  ultimately show ?thesis by (simp add: np_broadcast_shapes_Inr_iff)
qed

lemma concat_rect:
  assumes "\<forall>row\<in>set arr. length row = C"
  shows "length (concat arr) = length arr * C"
    and "r < length arr \<Longrightarrow> c < C \<Longrightarrow> concat arr ! (r * C + c) = arr ! r ! c"
  using assms
proof (induction arr arbitrary: r)
  case Nil
  { case 1 show ?case by simp }
  { case 2 then show ?case by simp }
next
  case (Cons row arr)
  { case 1 then show ?case using Cons.IH(1) by simp }
  { case 2
    show ?case
    proof (cases r)
      case 0
      then show ?thesis using 2 by (simp add: nth_append)
    next
      case (Suc r')
      then have "concat arr ! (r' * C + c) = arr ! r' ! c" using 2 by (intro Cons.IH(2)) simp_all
      then show ?thesis using Suc 2 by (simp add: nth_append)
    qed }
qed

lemma getitem_tail_np_array_2d:
  assumes rect: "\<forall>row\<in>set arr. length row = C" and r: "r < length arr" and c: "c < C"
    and sc: "shape (arr ! r ! c) = []"
  shows "getitem_tail (np_array_2d np C arr) [r, c]
           = astype np (dtype (np_array_2d np C arr)) (broadcast_view (arr ! r ! c) [])"
proof -
  have lt: "r * C + c < length (concat arr)"
  proof -
    have "r * C + c < r * C + C" using c by simp
    also have "\<dots> = Suc r * C" by simp
    also have "\<dots> \<le> length arr * C" using r by (intro mult_le_mono1) simp
    finally show ?thesis by (simp add: concat_rect(1)[OF rect])
  qed
  show ?thesis
    using lt concat_rect(2)[OF rect r c] sc
    by (simp add: getitem_tail_def np_array_2d_def astype_def broadcast_view_def bc_item_def
        bc_index_def)
qed

lemma getitem_tail_np_array_1d:
  assumes r: "i < length arr" and sc: "shape (arr ! i) = []"
  shows "getitem_tail (np_array_1d np arr) [i]
           = astype np (dtype (np_array_1d np arr)) (broadcast_view (arr ! i) [])"
  using assms
  by (simp add: getitem_tail_def np_array_1d_def astype_def broadcast_view_def bc_item_def
      bc_index_def)

lemma np_broadcast_shapes_Nil_scalar:
  assumes "np_broadcast_shapes shapes = Inr []" "s \<in> set shapes"
  shows "s = []"
  using np_broadcast_shapes_broadcastable[OF assms] by (simp add: broadcastable_def)


lemma stacked_matrix_slots:
  assumes rect: "\<forall>row\<in>set arr. length row = C" and ne: "concat arr \<noteq> []"
    and B: "np_broadcast_shapes (map shape (concat arr)) = Inr B"
  shows "\<exists>M. matrix_stack np dtype_arg arr = Inr M \<and> shape M = B @ [length arr, C] \<and>
           dtype M = (if B = [] then np_array_dtype np (concat arr)
                      else case dtype_arg of None \<Rightarrow> np_result_type np (concat arr) | Some d \<Rightarrow> d) \<and>
           (\<forall>r<length arr. \<forall>c<C. broadcastable (shape (arr ! r ! c)) B \<and>
               getitem_tail M [r, c] = astype np (dtype M) (broadcast_view (arr ! r ! c) B))"
proof -
  have arr: "arr \<noteq> []" using ne by auto
  have mem: "arr ! r ! c \<in> set (concat arr)" if "r < length arr" "c < C" for r c
  proof -
    have "arr ! r \<in> set arr" using that by simp
    moreover have "arr ! r ! c \<in> set (arr ! r)" using that rect by simp
    ultimately show ?thesis by auto
  qed
  have bcast: "broadcastable (shape (arr ! r ! c)) B" if "r < length arr" "c < C" for r c
    using mem[OF that] by (intro np_broadcast_shapes_broadcastable[OF B]) simp
  show ?thesis
  proof (cases "B = []")
    case True
    have ms: "matrix_stack np dtype_arg arr = Inr (np_array_2d np C arr)"
      using matrix_stack_rect[OF arr rect ne, of np dtype_arg] B True by simp
    have "shape (arr ! r ! c) = []" if "r < length arr" "c < C" for r c
      using mem[OF that] B True by (intro np_broadcast_shapes_Nil_scalar[of "map shape (concat arr)"]) simp_all
    then have "getitem_tail (np_array_2d np C arr) [r, c]
           = astype np (dtype (np_array_2d np C arr)) (broadcast_view (arr ! r ! c) [])"
      if "r < length arr" "c < C" for r c
      using that rect by (intro getitem_tail_np_array_2d) simp_all
    then show ?thesis using ms True bcast by (simp add: np_array_2d_def)
  next
    case False
    define dt where "dt = (case dtype_arg of None \<Rightarrow> np_result_type np (concat arr) | Some d \<Rightarrow> d)"
    define E where "E = np_empty np (B @ [length arr, C]) dt"
    have ms: "matrix_stack np dtype_arg arr = fill_rows np E 0 arr"
      using matrix_stack_rect[OF arr rect ne, of np dtype_arg] B False by (simp add: dt_def E_def)
    have "shape k \<in> set (map shape (concat arr))" if "row \<in> set arr" "k \<in> set row" for row k
      using that by force
    then have bc': "\<forall>row\<in>set arr. length row = C \<and> (\<forall>k\<in>set row. broadcastable (shape k) B)"
      using rect np_broadcast_shapes_broadcastable[OF B] by blast
    have "\<exists>M'. fill_rows np E 0 arr = Inr M' \<and> shape M' = shape E \<and> dtype M' = dtype E
            \<and> well_formed M'
            \<and> (\<forall>i<length arr. \<forall>j<C. getitem_tail M' [0 + i, j]
                    = astype np (dtype E) (broadcast_view (arr ! i ! j) B))
            \<and> (\<forall>r' c'. r' < 0 \<and> c' < C \<longrightarrow> getitem_tail M' [r', c'] = getitem_tail E [r', c'])"
      using fill_rows_props[of E B "length arr" C 0 arr np] bc'
      by (simp add: E_def well_formed_np_empty)
    then obtain M where M: "fill_rows np E 0 arr = Inr M" "shape M = B @ [length arr, C]" "dtype M = dt"
      and slots: "\<And>i j. i < length arr \<Longrightarrow> j < C \<Longrightarrow>
                 getitem_tail M [i, j] = astype np dt (broadcast_view (arr ! i ! j) B)"
      by (auto simp: E_def)
    show ?thesis using ms M slots bcast False by (simp add: dt_def)
  qed
qed

lemma stacked_vector_slots:
  assumes ne: "arr \<noteq> []" and B: "np_broadcast_shapes (map shape arr) = Inr B"
  shows "\<exists>M. vector_stack np dtype_arg arr = Inr M \<and> shape M = B @ [length arr] \<and>
           dtype M = (if B = [] then np_array_dtype np arr
                      else case dtype_arg of None \<Rightarrow> np_result_type np arr | Some d \<Rightarrow> d) \<and>
           (\<forall>i<length arr. broadcastable (shape (arr ! i)) B \<and>
               getitem_tail M [i] = astype np (dtype M) (broadcast_view (arr ! i) B))"
proof -
  have bcast: "broadcastable (shape (arr ! i)) B" if "i < length arr" for i
    using that by (intro np_broadcast_shapes_broadcastable[OF B]) simp
  show ?thesis
  proof (cases "B = []")
    case True
    have vs: "vector_stack np dtype_arg arr = Inr (np_array_1d np arr)"
      using vector_stack_nonempty[OF ne, of np dtype_arg] B True by simp
    have "shape (arr ! i) = []" if "i < length arr" for i
      using that B True by (intro np_broadcast_shapes_Nil_scalar[of "map shape arr"]) simp_all
    then have "getitem_tail (np_array_1d np arr) [i]
           = astype np (dtype (np_array_1d np arr)) (broadcast_view (arr ! i) [])"
      if "i < length arr" for i
      using that by (intro getitem_tail_np_array_1d) simp_all
    then show ?thesis using vs True bcast by (simp add: np_array_1d_def)
  next
    case False
    define dt where "dt = (case dtype_arg of None \<Rightarrow> np_result_type np arr | Some d \<Rightarrow> d)"
    define E where "E = np_empty np (B @ [length arr]) dt"
    have vs: "vector_stack np dtype_arg arr = fill_vector np E 0 arr"
      using vector_stack_nonempty[OF ne, of np dtype_arg] B False by (simp add: dt_def E_def)
    have bc': "\<forall>k\<in>set arr. broadcastable (shape k) B"
      by (auto intro!: np_broadcast_shapes_broadcastable[OF B])
    have "\<exists>M'. fill_vector np E 0 arr = Inr M' \<and> shape M' = shape E \<and> dtype M' = dtype E
            \<and> well_formed M'
            \<and> (\<forall>i<length arr. getitem_tail M' [0 + i]
                    = astype np (dtype E) (broadcast_view (arr ! i) B))
            \<and> (\<forall>r'. r' < 0 \<longrightarrow> getitem_tail M' [r'] = getitem_tail E [r'])"
      using fill_vector_props[of E B "length arr" 0 arr np] bc'
      by (simp add: E_def well_formed_np_empty)
    then obtain M where M: "fill_vector np E 0 arr = Inr M" "shape M = B @ [length arr]" "dtype M = dt"
      and slots: "\<And>i. i < length arr \<Longrightarrow>
                 getitem_tail M [i] = astype np dt (broadcast_view (arr ! i) B)"
      by (auto simp: E_def)
    show ?thesis using vs M slots bcast False by (simp add: dt_def)
  qed
qed

section \<open>The identity-structured rows and type promotion\<close>

lemma id_rows_length [simp]: "length (id_rows np arr) = length arr"
  by (simp add: id_rows_def)

lemma id_rows_nth:
  "i < length arr \<Longrightarrow> id_rows np arr ! i = (replicate (length arr) (py_zero np))[i := arr ! i]"
  by (simp add: id_rows_def nth_enumerate_eq)

lemma id_rows_row_length: "row \<in> set (id_rows np arr) \<Longrightarrow> length row = length arr"
  by (auto simp: id_rows_def in_set_enumerate_eq)

lemma id_rows_entry:
  "i < length arr \<Longrightarrow> j < length arr \<Longrightarrow>
   id_rows np arr ! i ! j = (if i = j then arr ! i else py_zero np)"
  by (simp add: id_rows_nth nth_list_update)

lemma id_rows_set_upper: "set (concat (id_rows np arr)) \<subseteq> insert (py_zero np) (set arr)"
proof
  fix x assume "x \<in> set (concat (id_rows np arr))"
  then obtain row where row: "row \<in> set (id_rows np arr)" and x: "x \<in> set row" by auto
  from row obtain i where i: "i < length arr" "row = id_rows np arr ! i"
    by (metis id_rows_length in_set_conv_nth)
  from x obtain j where j: "j < length row" "x = row ! j" by (metis in_set_conv_nth)
  have "length row = length arr" using row by (rule id_rows_row_length)
  then have "x = (if i = j then arr ! i else py_zero np)"
    using i j id_rows_entry[of i arr j np] by simp
  then show "x \<in> insert (py_zero np) (set arr)" using i by auto
qed

lemma id_rows_set_diag: "set arr \<subseteq> set (concat (id_rows np arr))"
proof
  fix x assume "x \<in> set arr"
  then obtain i where i: "i < length arr" "x = arr ! i" by (metis in_set_conv_nth)
  have "id_rows np arr ! i \<in> set (id_rows np arr)" using i by simp
  moreover have "id_rows np arr ! i ! i = x" using i by (simp add: id_rows_entry)
  moreover have "i < length (id_rows np arr ! i)" using i by (simp add: id_rows_nth)
  ultimately show "x \<in> set (concat (id_rows np arr))"
    by (metis concat.simps(2) in_set_conv_decomp_first in_set_conv_nth set_concat UN_I)
qed

lemma id_rows_set_zero:
  assumes "2 \<le> length arr"
  shows "py_zero np \<in> set (concat (id_rows np arr))"
proof -
  have len: "0 < length arr" "1 < length arr" using assms by linarith+
  have "id_rows np arr ! 0 \<in> set (id_rows np arr)" using len by (intro nth_mem) simp
  moreover have "id_rows np arr ! 0 ! 1 = py_zero np"
    using id_rows_entry[OF len, of np] by simp
  moreover have "1 < length (id_rows np arr ! 0)" using len by (simp add: id_rows_nth)
  ultimately show ?thesis by (metis UN_I nth_mem set_concat)
qed

lemma id_rows_concat_nonempty:
  assumes "arr \<noteq> []"
  shows "concat (id_rows np arr) \<noteq> []"
proof -
  from assms obtain x where "x \<in> set arr" by (cases arr) auto
  then have "x \<in> set (concat (id_rows np arr))" using id_rows_set_diag[of arr np] by blast
  then show ?thesis by (metis empty_iff list.set(1))
qed

lemma max_rank_Max: "max_rank shapes = Max (insert 0 (length ` set shapes))"
proof (induction shapes)
  case Nil
  show ?case by simp
next
  case (Cons s shapes)
  have "Max (insert 0 (length ` set (s # shapes)))
          = Max (insert (length s) (insert 0 (length ` set shapes)))"
    by (simp add: insert_commute)
  also have "\<dots> = max (length s) (Max (insert 0 (length ` set shapes)))"
    by (rule Max_insert) simp_all
  finally show ?case using Cons by simp
qed

lemma dim_of_cong_set:
  assumes "{d \<in> set ds. d \<noteq> 1} = {d \<in> set es. d \<noteq> 1}"
  shows "dim_of ds = dim_of es"
proof (cases "dim_of ds")
  case None
  then obtain x y where "x \<in> set ds" "y \<in> set ds" "x \<noteq> 1" "y \<noteq> 1" "x \<noteq> y"
    by (auto simp: dim_of_None_iff)
  then have "x \<in> set es" "y \<in> set es" "x \<noteq> 1" "y \<noteq> 1" "x \<noteq> y" using assms by auto
  then have "dim_of es = None" unfolding dim_of_None_iff by blast
  with None show ?thesis by simp
next
  case (Some d)
  then have "(\<forall>e\<in>set ds. e = 1 \<or> e = d) \<and> (d \<noteq> 1 \<longrightarrow> d \<in> set ds)"
    by (simp add: dim_of_Some_iff)
  then have "(\<forall>e\<in>set es. e = 1 \<or> e = d) \<and> (d \<noteq> 1 \<longrightarrow> d \<in> set es)"
    using assms by blast
  then have "dim_of es = Some d" by (simp add: dim_of_Some_iff)
  with Some show ?thesis by simp
qed

lemma np_broadcast_shapes_cong_set:
  assumes "set xs - {[]} = set ys - {[]}"
  shows "np_broadcast_shapes xs = np_broadcast_shapes ys"
proof -
  have ins: "insert 0 (length ` set zs) = insert 0 (length ` (set zs - {[]}))" for zs :: "shape list"
    by auto
  have mr: "max_rank xs = max_rank ys"
    unfolding max_rank_Max ins[of xs] ins[of ys] assms ..
  have dims: "{d \<in> set (map (\<lambda>s. dimr s p) zs). d \<noteq> 1}
                = {d. \<exists>s\<in>set zs - {[]}. d = dimr s p \<and> d \<noteq> 1}" for zs p
    by (auto simp: dimr_def)
  have "dim_of (map (\<lambda>s. dimr s p) xs) = dim_of (map (\<lambda>s. dimr s p) ys)" for p
    by (rule dim_of_cong_set) (simp only: dims assms)
  then show ?thesis by (simp add: np_broadcast_shapes_def mr)
qed

lemma id_rows_broadcast_shapes:
  "np_broadcast_shapes (map shape (concat (id_rows np arr))) = np_broadcast_shapes (map shape arr)"
proof (rule np_broadcast_shapes_cong_set)
  have z: "shape (py_zero np) = []" by (simp add: py_zero_def)
  have "shape ` set (concat (id_rows np arr)) \<subseteq> insert [] (shape ` set arr)"
    using id_rows_set_upper[of np arr] z by (metis image_insert image_mono)
  moreover have "shape ` set arr \<subseteq> shape ` set (concat (id_rows np arr))"
    using id_rows_set_diag[of arr np] by (rule image_mono)
  ultimately show "set (map shape (concat (id_rows np arr))) - {[]} = set (map shape arr) - {[]}"
    unfolding set_map by blast
qed

lemma broadcast_view_py_zero:
  "broadcast_view (py_zero np) B
     = \<lparr>shape = B, dtype = np_int_dtype np, data = replicate (size_of B) (np_zero np)\<rparr>"
  by (simp add: broadcast_view_def py_zero_def bc_item_def bc_index_def map_replicate_const)

lemma stacked_identity_slots:
  assumes ne: "arr \<noteq> []" and B: "np_broadcast_shapes (map shape arr) = Inr B"
  shows "\<exists>M. matrix_stack_id np dtype_arg arr = Inr M \<and> shape M = B @ [length arr, length arr] \<and>
           dtype M = (if B = [] then np_array_dtype np (concat (id_rows np arr))
                      else case dtype_arg of None \<Rightarrow> np_result_type np (concat (id_rows np arr))
                                           | Some d \<Rightarrow> d) \<and>
           (\<forall>i<length arr. \<forall>j<length arr.
               broadcastable (shape (if i = j then arr ! i else py_zero np)) B \<and>
               getitem_tail M [i, j]
                 = astype np (dtype M) (broadcast_view (if i = j then arr ! i else py_zero np) B))"
proof -
  have rect: "\<forall>row\<in>set (id_rows np arr). length row = length arr"
    by (simp add: id_rows_row_length)
  have B': "np_broadcast_shapes (map shape (concat (id_rows np arr))) = Inr B"
    using B by (simp only: id_rows_broadcast_shapes)
  from stacked_matrix_slots[OF rect id_rows_concat_nonempty[OF ne] B', of np dtype_arg]
  obtain M where M: "matrix_stack np dtype_arg (id_rows np arr) = Inr M"
    "shape M = B @ [length arr, length arr]"
    "dtype M = (if B = [] then np_array_dtype np (concat (id_rows np arr))
                else case dtype_arg of None \<Rightarrow> np_result_type np (concat (id_rows np arr))
                                     | Some d \<Rightarrow> d)"
    and slots: "\<And>r c. r < length arr \<Longrightarrow> c < length arr \<Longrightarrow>
         broadcastable (shape (id_rows np arr ! r ! c)) B \<and>
         getitem_tail M [r, c] = astype np (dtype M) (broadcast_view (id_rows np arr ! r ! c) B)"
    by auto
  have "broadcastable (shape (if i = j then arr ! i else py_zero np)) B \<and>
        getitem_tail M [i, j]
          = astype np (dtype M) (broadcast_view (if i = j then arr ! i else py_zero np) B)"
    if "i < length arr" "j < length arr" for i j
    using slots[OF that] id_rows_entry[OF that, of np] by simp
  then show ?thesis using M by (auto simp: matrix_stack_id_def)
qed

lemma foldl_promote_left:
  assumes "promotion_rule pr"
  shows "foldl pr (pr e x) xs = pr e (foldl pr x xs)"
proof (induction xs arbitrary: x)
  case Nil
  show ?case by simp
next
  case (Cons a xs)
  have "pr (pr e x) a = pr e (pr x a)" using assms unfolding promotion_rule_def by blast
  then show ?case using Cons[of "pr x a"] by simp
qed

lemma foldl_promote_upper:
  assumes "promotion_rule pr" "e \<in> insert x (set xs)"
  shows "pr e (foldl pr x xs) = foldl pr x xs"
  using assms(2)
proof (induction xs arbitrary: x)
  case Nil
  then show ?case using assms(1) by (simp add: promotion_rule_def)
next
  case (Cons a xs)
  consider "e = x" | "e = a" | "e \<in> set xs" using Cons.prems by auto
  then show ?case
  proof cases
    case 1
    have "pr x (pr x a) = pr x a" using assms(1) by (metis promotion_rule_def)
    then show ?thesis using 1 foldl_promote_left[OF assms(1), of x "pr x a" xs] by simp
  next
    case 2
    have "pr a (pr x a) = pr x a" using assms(1) by (metis promotion_rule_def)
    then show ?thesis using 2 foldl_promote_left[OF assms(1), of a "pr x a" xs] by simp
  next
    case 3
    then show ?thesis using Cons.IH[of "pr x a"] by simp
  qed
qed

lemma foldl_promote_least:
  assumes "promotion_rule pr" "\<forall>e\<in>insert x (set xs). pr e u = u"
  shows "pr (foldl pr x xs) u = u"
  using assms(2)
proof (induction xs arbitrary: x)
  case Nil
  then show ?case by simp
next
  case (Cons a xs)
  have "pr (pr x a) u = pr x (pr a u)" using assms(1) unfolding promotion_rule_def by blast
  also have "\<dots> = u" using Cons.prems by simp
  finally have "\<forall>e\<in>insert (pr x a) (set xs). pr e u = u" using Cons.prems by simp
  then show ?case using Cons.IH[of "pr x a"] by simp
qed

lemma foldl_promote_cong:
  assumes pr: "promotion_rule pr" and set: "insert x (set xs) = insert y (set ys)"
  shows "foldl pr x xs = foldl pr y ys"
proof -
  have 1: "pr (foldl pr x xs) (foldl pr y ys) = foldl pr y ys"
    using foldl_promote_upper[OF pr, of _ y ys] set
    by (intro foldl_promote_least[OF pr]) blast
  have 2: "pr (foldl pr y ys) (foldl pr x xs) = foldl pr x xs"
    using foldl_promote_upper[OF pr, of _ x xs] set
    by (intro foldl_promote_least[OF pr]) blast
  have "pr (foldl pr x xs) (foldl pr y ys) = pr (foldl pr y ys) (foldl pr x xs)"
    using pr unfolding promotion_rule_def by blast
  with 1 2 show ?thesis by simp
qed

lemma promotion_of_cong:
  assumes "promotion_rule pr" "set ds = set es"
  shows "promotion_of pr ds = promotion_of pr es"
proof (cases ds)
  case Nil
  then show ?thesis using assms(2) by simp
next
  case (Cons d ds')
  then obtain e es' where es: "es = e # es'" using assms(2) by (cases es) auto
  have "foldl pr d ds' = foldl pr e es'"
    using assms(2) Cons es by (intro foldl_promote_cong[OF assms(1)]) simp
  then show ?thesis using Cons es by (simp add: promotion_of_def)
qed

lemma promotion_of_snoc:
  "promotion_of pr ds = Some d \<Longrightarrow> promotion_of pr (ds @ [z]) = Some (pr d z)"
  by (cases ds) (auto simp: promotion_of_def)

lemma promotion_of_upper:
  assumes "promotion_rule pr" "promotion_of pr ds = Some d" "e \<in> set ds"
  shows "pr e d = d"
proof -
  from assms(2) obtain x xs where ds: "ds = x # xs" "d = foldl pr x xs"
    by (cases ds) (auto simp: promotion_of_def)
  then show ?thesis using foldl_promote_upper[OF assms(1), of e x xs] assms(3) by simp
qed

lemma promotion_of_id_rows:
  assumes pr: "promotion_rule pr" and n: "2 \<le> length arr"
    and d: "promotion_of pr (map dtype arr) = Some d"
  shows "promotion_of pr (map dtype (concat (id_rows np arr))) = Some (pr d (np_int_dtype np))"
proof -
  have z: "dtype (py_zero np) = np_int_dtype np" by (simp add: py_zero_def)
  have "set (concat (id_rows np arr)) = insert (py_zero np) (set arr)"
    using id_rows_set_upper[of np arr] id_rows_set_diag[of arr np] id_rows_set_zero[OF n, of np]
    by blast
  then have "set (map dtype (concat (id_rows np arr))) = set (map dtype arr @ [np_int_dtype np])"
    using z by simp
  then have "promotion_of pr (map dtype (concat (id_rows np arr)))
               = promotion_of pr (map dtype arr @ [np_int_dtype np])"
    by (rule promotion_of_cong[OF pr])
  then show ?thesis using promotion_of_snoc[OF d] by simp
qed

lemma id_rows_single: "id_rows np [a] = [[a]]"
  by (simp add: id_rows_def)

lemma promotion_rule_promote: "promotion_rule promote"
proof -
  have a: "promote (promote x y) z = promote x (promote y z)" for x y z
    by (cases x; cases y; cases z) (auto simp: max.assoc)
  have c: "promote x y = promote y x" for x y
  proof (cases x; cases y)
    fix k w k' w' assume "x = ScalarType k w" "y = ScalarType k' w'"
    then show ?thesis by (cases k; cases k') (simp_all add: max.commute)
  qed
  have i: "promote x x = x" for x by (cases x) simp
  show ?thesis unfolding promotion_rule_def using a c i by blast
qed

lemma promotes_with_example: "promotes_with example_numpy promote"
  by (auto simp: promotes_with_def example_numpy_def promote_arrays_def promotion_of_def
      split: list.splits)

section \<open>The claims\<close>

subsection \<open>Stacking a matrix\<close>

text \<open>
  C1. For a rectangular matrix input of \<open>R\<close> rows of \<open>C\<close> elements whose shapes have the
  common broadcast shape \<open>B\<close> of rank at least 1, \<^verbatim>\<open>matrix_stack\<close> returns an array of
  shape \<open>B + (R, C)\<close>, and for every row and column the slice \<^verbatim>\<open>output[..., row, col]\<close> is
  that element broadcast into \<open>B\<close>, its values converted to the dtype of the output as
  the assignment into the output converts them.
\<close>

theorem matrix_stack_slices:
  assumes rect: "\<forall>row\<in>set arr. length row = C" and R: "length arr = R"
    and B: "np_broadcast_shapes (map shape (concat arr)) = Inr B" and rank: "B \<noteq> []"
  shows "\<exists>M. matrix_stack np dtype_arg arr = Inr M \<and> shape M = B @ [R, C] \<and>
           (\<forall>r<R. \<forall>c<C. \<exists>X. broadcast_to (arr ! r ! c) B = Inr X \<and>
                               getitem_tail M [r, c] = astype np (dtype M) X)"
proof -
  have ne: "concat arr \<noteq> []"
  proof
    assume e: "concat arr = []"
    have "np_broadcast_shapes (map shape (concat arr)) = Inr []"
      unfolding e by (simp add: np_broadcast_shapes_Nil)
    with B rank show False by simp
  qed
  from stacked_matrix_slots[OF rect ne B, of np dtype_arg]
  obtain M where M: "matrix_stack np dtype_arg arr = Inr M" "shape M = B @ [length arr, C]"
    and slots: "\<And>r c. r < length arr \<Longrightarrow> c < C \<Longrightarrow>
         broadcastable (shape (arr ! r ! c)) B \<and>
         getitem_tail M [r, c] = astype np (dtype M) (broadcast_view (arr ! r ! c) B)"
    by auto
  have "\<exists>X. broadcast_to (arr ! r ! c) B = Inr X \<and> getitem_tail M [r, c] = astype np (dtype M) X"
    if "r < R" "c < C" for r c
    using slots[of r c] that R by (simp add: broadcast_to_def)
  then show ?thesis using M R by auto
qed

theorem matrix_stack_slices_witness:
  "\<exists>M. matrix_stack example_numpy None example_matrix = Inr M \<and> shape M = [3, 2, 2] \<and>
       getitem_tail M [0, 0] = \<lparr>shape = [3], dtype = dtype M, data = [1, 2, 3]\<rparr> \<and>
       getitem_tail M [0, 1] = \<lparr>shape = [3], dtype = dtype M, data = [0, 0, 0]\<rparr>"
proof -
  have rect: "\<forall>row\<in>set example_matrix. length row = 2" and R: "length example_matrix = 2"
    by (simp_all add: example_matrix_def)
  have B: "np_broadcast_shapes (map shape (concat example_matrix)) = Inr [3]"
    by code_simp
  have rank: "[3] \<noteq> ([] :: nat list)" by simp
  from matrix_stack_slices[OF rect R B rank, of example_numpy None]
  obtain M where M: "matrix_stack example_numpy None example_matrix = Inr M"
    "shape M = [3] @ [2, 2]"
    and slots: "\<And>r c. r < 2 \<Longrightarrow> c < 2 \<Longrightarrow>
       \<exists>X. broadcast_to (example_matrix ! r ! c) [3] = Inr X \<and>
           getitem_tail M [r, c] = astype example_numpy (dtype M) X"
    by blast
  have b00: "broadcast_to (example_matrix ! 0 ! 0) [3]
               = Inr \<lparr>shape = [3], dtype = float32, data = [1, 2, 3]\<rparr>"
    by code_simp
  have b01: "broadcast_to (example_matrix ! 0 ! 1) [3]
               = Inr \<lparr>shape = [3], dtype = int64, data = [0, 0, 0]\<rparr>"
    by code_simp
  have "getitem_tail M [0, 0] = \<lparr>shape = [3], dtype = dtype M, data = [1, 2, 3]\<rparr>"
    using slots[of 0 0] b00 by (auto simp: astype_def example_numpy_def)
  moreover have "getitem_tail M [0, 1] = \<lparr>shape = [3], dtype = dtype M, data = [0, 0, 0]\<rparr>"
    using slots[of 0 1] b01 by (auto simp: astype_def example_numpy_def)
  ultimately show ?thesis using M by simp
qed

subsection \<open>Stacking a vector\<close>

text \<open>
  C2. For a sequence of \<open>N\<close> elements whose shapes have the common broadcast shape \<open>B\<close> of
  rank at least 1 (so the sequence is not empty), \<^verbatim>\<open>vector_stack\<close> returns an array of
  shape \<open>B + (N,)\<close>; its dtype is \<^verbatim>\<open>np.result_type\<close> of the elements when no dtype is
  passed and the dtype passed otherwise; and for every \<open>i < N\<close> the slice
  \<^verbatim>\<open>output[..., i]\<close> is element \<open>i\<close> broadcast into \<open>B\<close>, converted to that dtype.
\<close>

theorem vector_stack_slices:
  assumes N: "length arr = N"
    and B: "np_broadcast_shapes (map shape arr) = Inr B" and rank: "B \<noteq> []"
  shows "\<exists>M. vector_stack np dtype_arg arr = Inr M \<and> shape M = B @ [N] \<and>
           dtype M = (case dtype_arg of None \<Rightarrow> np_result_type np arr | Some d \<Rightarrow> d) \<and>
           (\<forall>i<N. \<exists>X. broadcast_to (arr ! i) B = Inr X \<and>
                        getitem_tail M [i] = astype np (dtype M) X)"
proof -
  have ne: "arr \<noteq> []"
    using B rank by (auto simp: np_broadcast_shapes_Nil)
  from stacked_vector_slots[OF ne B, of np dtype_arg]
  obtain M where M: "vector_stack np dtype_arg arr = Inr M" "shape M = B @ [length arr]"
    "dtype M = (case dtype_arg of None \<Rightarrow> np_result_type np arr | Some d \<Rightarrow> d)"
    and slots: "\<And>i. i < length arr \<Longrightarrow>
         broadcastable (shape (arr ! i)) B \<and>
         getitem_tail M [i] = astype np (dtype M) (broadcast_view (arr ! i) B)"
    using rank by auto
  have "\<exists>X. broadcast_to (arr ! i) B = Inr X \<and> getitem_tail M [i] = astype np (dtype M) X"
    if "i < N" for i
    using slots[of i] that N by (simp add: broadcast_to_def)
  then show ?thesis using M N by auto
qed

theorem vector_stack_slices_witness:
  "\<exists>M. vector_stack example_numpy None example_vector = Inr M \<and> shape M = [3, 3] \<and>
       dtype M = float64 \<and>
       getitem_tail M [1] = \<lparr>shape = [3], dtype = float64, data = [0, 0, 0]\<rparr> \<and>
       getitem_tail M [2] = \<lparr>shape = [3], dtype = float64, data = [7, 7, 7]\<rparr>"
proof -
  have N: "length example_vector = 3" by (simp add: example_vector_def)
  have B: "np_broadcast_shapes (map shape example_vector) = Inr [3]"
    by code_simp
  have rank: "[3] \<noteq> ([] :: nat list)" by simp
  from vector_stack_slices[OF N B rank, of example_numpy None]
  obtain M where M: "vector_stack example_numpy None example_vector = Inr M"
    "shape M = [3] @ [3]" "dtype M = np_result_type example_numpy example_vector"
    and slots: "\<And>i. i < 3 \<Longrightarrow>
       \<exists>X. broadcast_to (example_vector ! i) [3] = Inr X \<and>
           getitem_tail M [i] = astype example_numpy (dtype M) X"
    by auto
  have dt: "np_result_type example_numpy example_vector = float64"
    by code_simp
  have b1: "broadcast_to (example_vector ! 1) [3]
               = Inr \<lparr>shape = [3], dtype = int64, data = [0, 0, 0]\<rparr>"
    by code_simp
  have b2: "broadcast_to (example_vector ! 2) [3]
               = Inr \<lparr>shape = [3], dtype = int64, data = [7, 7, 7]\<rparr>"
    by code_simp
  have "getitem_tail M [1] = \<lparr>shape = [3], dtype = float64, data = [0, 0, 0]\<rparr>"
    using slots[of 1] b1 M(3) dt by (auto simp: astype_def example_numpy_def)
  moreover have "getitem_tail M [2] = \<lparr>shape = [3], dtype = float64, data = [7, 7, 7]\<rparr>"
    using slots[of 2] b2 M(3) dt by (auto simp: astype_def example_numpy_def)
  ultimately show ?thesis using M dt by simp
qed

subsection \<open>The windowed computation of the broadcast shape\<close>

text \<open>
  C3. For a non-empty list of arrays, the windowed loop of \<^verbatim>\<open>broadcast_shapes\<close> (32
  shapes first, then 31 more together with the running result, and 32 again when the
  running result is the empty shape) returns what one call of the broadcasting primitive
  on all the shapes returns, and what the left fold of the rule for two shapes returns:
  the same shape when there is one, the same error when there is none.
\<close>

theorem broadcast_shapes_chunking:
  assumes "mlist \<noteq> []"
  shows "broadcast_shapes mlist = map_sum id Some (np_broadcast_shapes (map shape mlist))
       \<and> broadcast_shapes mlist = map_sum id Some (broadcast_fold (map shape mlist))"
proof -
  have "broadcast_shapes mlist = map_sum id Some (np_broadcast_shapes (map shape mlist))"
    using assms by (rule broadcast_shapes_nonempty)
  moreover have "np_broadcast_shapes (map shape mlist) = broadcast_fold (map shape mlist)"
    by (rule np_broadcast_shapes_eq_fold)
  ultimately show ?thesis by simp
qed

theorem broadcast_shapes_chunking_witness:
  "length example_long = 71 \<and> broadcast_shapes example_long = Inr (Some [2, 3])
     \<and> broadcast_fold (map shape example_long) = Inr [2, 3]"
proof -
  have ne: "example_long \<noteq> []" by (simp add: example_long_def)
  have "set (map shape example_long) - {[]} = set [[3], [2, 1]] - {[]}"
    by (simp add: example_long_def vec_def column_def insert_commute numeral_3_eq_3)
  then have "np_broadcast_shapes (map shape example_long) = np_broadcast_shapes [[3], [2, 1]]"
    by (rule np_broadcast_shapes_cong_set)
  also have "\<dots> = Inr [2, 3]" by code_simp
  finally have np: "np_broadcast_shapes (map shape example_long) = Inr [2, 3]" .
  have len: "length example_long = 71" by (simp add: example_long_def)
  have fold: "broadcast_fold (map shape example_long) = Inr [2, 3]"
    using np by (simp only: np_broadcast_shapes_eq_fold)
  from broadcast_shapes_chunking[OF ne]
  have "broadcast_shapes example_long = Inr (Some [2, 3])" using np by simp
  then show ?thesis using len fold by simp
qed

subsection \<open>Scalar-only input\<close>

text \<open>
  C4. When every element of a rectangular matrix input with at least one element is a
  scalar, \<^verbatim>\<open>matrix_stack\<close> returns the plain array of shape \<open>(R, C)\<close> that \<^verbatim>\<open>np.array\<close>
  builds: no leading axis, and at row \<open>r\<close> and column \<open>c\<close> the value of that element
  (converted to the dtype \<^verbatim>\<open>np.array\<close> finds). Likewise \<^verbatim>\<open>vector_stack\<close> on a non-empty
  list of scalars returns the plain array of shape \<open>(N,)\<close>.
\<close>

theorem scalar_only_stack:
  "((\<forall>row\<in>set arr. length row = C) \<and> concat arr \<noteq> [] \<and> (\<forall>a\<in>set (concat arr). shape a = [])
      \<longrightarrow> (\<exists>M. matrix_stack np dtype_arg arr = Inr M \<and> shape M = [length arr, C] \<and>
               length (data M) = length arr * C \<and>
               (\<forall>r<length arr. \<forall>c<C.
                  data M ! (r * C + c) = np_astype np (dtype M) (data (arr ! r ! c) ! 0))))
   \<and> (xs \<noteq> [] \<and> (\<forall>a\<in>set xs. shape a = [])
      \<longrightarrow> (\<exists>M. vector_stack np dtype_arg xs = Inr M \<and> shape M = [length xs] \<and>
               length (data M) = length xs \<and>
               (\<forall>i<length xs. data M ! i = np_astype np (dtype M) (data (xs ! i) ! 0))))"
proof (intro conjI impI)
  assume a: "(\<forall>row\<in>set arr. length row = C) \<and> concat arr \<noteq> []
               \<and> (\<forall>a\<in>set (concat arr). shape a = [])"
  then have rect: "\<forall>row\<in>set arr. length row = C" and ne: "concat arr \<noteq> []"
    and sc: "\<forall>a\<in>set (concat arr). shape a = []"
    by blast+
  have arr: "arr \<noteq> []" using ne by auto
  have "\<forall>s\<in>set (map shape (concat arr)). s = []"
    using sc unfolding set_map by blast
  then have B: "np_broadcast_shapes (map shape (concat arr)) = Inr []"
    by (rule np_broadcast_shapes_all_scalar)
  have ms: "matrix_stack np dtype_arg arr = Inr (np_array_2d np C arr)"
    using matrix_stack_rect[OF arr rect ne, of np dtype_arg] B by simp
  have len: "length (data (np_array_2d np C arr)) = length arr * C"
    by (simp add: np_array_2d_def concat_rect(1)[OF rect] del: length_concat)
  have item: "data (np_array_2d np C arr) ! (r * C + c)
                = np_astype np (dtype (np_array_2d np C arr)) (data (arr ! r ! c) ! 0)"
    if "r < length arr" "c < C" for r c
  proof -
    have "r * C + c < r * C + C" using that by simp
    also have "\<dots> = Suc r * C" by simp
    also have "\<dots> \<le> length arr * C" using that by (intro mult_le_mono1) simp
    finally have "r * C + c < length (concat arr)" by (simp only: concat_rect(1)[OF rect])
    then show ?thesis
      using concat_rect(2)[OF rect that] by (simp add: np_array_2d_def del: length_concat)
  qed
  show "\<exists>M. matrix_stack np dtype_arg arr = Inr M \<and> shape M = [length arr, C] \<and>
            length (data M) = length arr * C \<and>
            (\<forall>r<length arr. \<forall>c<C.
               data M ! (r * C + c) = np_astype np (dtype M) (data (arr ! r ! c) ! 0))"
    using ms len item by (auto simp: np_array_2d_def)
next
  assume a: "xs \<noteq> [] \<and> (\<forall>a\<in>set xs. shape a = [])"
  then have ne: "xs \<noteq> []" and sc: "\<forall>a\<in>set xs. shape a = []" by blast+
  have "\<forall>s\<in>set (map shape xs). s = []" using sc by simp
  then have B: "np_broadcast_shapes (map shape xs) = Inr []"
    by (rule np_broadcast_shapes_all_scalar)
  have vs: "vector_stack np dtype_arg xs = Inr (np_array_1d np xs)"
    using vector_stack_nonempty[OF ne, of np dtype_arg] B by simp
  show "\<exists>M. vector_stack np dtype_arg xs = Inr M \<and> shape M = [length xs] \<and>
            length (data M) = length xs \<and>
            (\<forall>i<length xs. data M ! i = np_astype np (dtype M) (data (xs ! i) ! 0))"
    using vs by (simp add: np_array_1d_def)
qed

theorem scalar_only_stack_witness:
  "(\<exists>M. matrix_stack example_numpy None scalar_matrix = Inr M \<and> shape M = [2, 2] \<and>
        length (data M) = 4 \<and> data M ! 2 = 3)
   \<and> (\<exists>M. vector_stack example_numpy None scalar_vector = Inr M \<and> shape M = [3] \<and>
        length (data M) = 3 \<and> data M ! 1 = 2)"
proof -
  have h1: "(\<forall>row\<in>set scalar_matrix. length row = 2) \<and> concat scalar_matrix \<noteq> []
              \<and> (\<forall>a\<in>set (concat scalar_matrix). shape a = [])"
    by (simp add: scalar_matrix_def scalar_def)
  have h2: "scalar_vector \<noteq> [] \<and> (\<forall>a\<in>set scalar_vector. shape a = [])"
    by (simp add: scalar_vector_def scalar_def)
  note inst = scalar_only_stack[of scalar_matrix 2 example_numpy None scalar_vector]
  from inst h1 obtain M where M: "matrix_stack example_numpy None scalar_matrix = Inr M"
    "shape M = [length scalar_matrix, 2]" "length (data M) = length scalar_matrix * 2"
    and item: "\<And>r c. r < length scalar_matrix \<Longrightarrow> c < 2 \<Longrightarrow>
        data M ! (r * 2 + c) = np_astype example_numpy (dtype M) (data (scalar_matrix ! r ! c) ! 0)"
    by blast
  from inst h2 obtain V where V: "vector_stack example_numpy None scalar_vector = Inr V"
    "shape V = [length scalar_vector]" "length (data V) = length scalar_vector"
    and vitem: "\<And>i. i < length scalar_vector \<Longrightarrow>
        data V ! i = np_astype example_numpy (dtype V) (data (scalar_vector ! i) ! 0)"
    by blast
  have "data M ! 2 = 3"
    using item[of 1 0] by (simp add: scalar_matrix_def scalar_def example_numpy_def)
  moreover have "data V ! 1 = 2"
    using vitem[of 1] by (simp add: scalar_vector_def scalar_def example_numpy_def)
  ultimately show ?thesis
    using M V by (simp add: scalar_matrix_def scalar_vector_def)
qed

subsection \<open>The dtype override\<close>

text \<open>
  C5. The claim is that an explicit dtype is the dtype of the result for every valid
  input. On scalar-only input the code returns \<^verbatim>\<open>np.array(arr)\<close> without passing the
  dtype on: forcing \<open>float64\<close> on a matrix of four 64-bit integers returns an integer
  array, the same array as without the override.
\<close>

theorem scalar_matrix_ignores_dtype:
  "matrix_stack example_numpy (Some float64) scalar_matrix
     = Inr \<lparr>shape = [2, 2], dtype = int64, data = [1, 2, 3, 4]\<rparr>
   \<and> matrix_stack example_numpy (Some float64) scalar_matrix
     = matrix_stack example_numpy None scalar_matrix
   \<and> int64 \<noteq> float64"
proof -
  have 1: "scalar_matrix \<noteq> []" "\<forall>row\<in>set scalar_matrix. length row = 2"
    "concat scalar_matrix \<noteq> []"
    by (simp_all add: scalar_matrix_def)
  have B: "np_broadcast_shapes (map shape (concat scalar_matrix)) = Inr []"
    by code_simp
  have arr: "np_array_2d example_numpy 2 scalar_matrix
               = \<lparr>shape = [2, 2], dtype = int64, data = [1, 2, 3, 4]\<rparr>"
    by code_simp
  have "matrix_stack example_numpy dtype_arg scalar_matrix
          = Inr \<lparr>shape = [2, 2], dtype = int64, data = [1, 2, 3, 4]\<rparr>" for dtype_arg
    using matrix_stack_rect[OF 1, of example_numpy dtype_arg] B arr by simp
  then show ?thesis by (simp add: int64_def float64_def)
qed

subsection \<open>Errors\<close>

text \<open>
  C6. When two of the elements have shapes that conflict (at a position aligned from the
  right both dimensions differ and neither is 1), \<^verbatim>\<open>broadcast_shapes\<close> and
  \<^verbatim>\<open>vector_stack\<close> return the error \<open>ShapeMismatch\<close>, and so does \<^verbatim>\<open>matrix_stack\<close> on a
  rectangular input; on any matrix input with such elements \<^verbatim>\<open>matrix_stack\<close> returns an
  error and no array.
\<close>

theorem shape_mismatch_raised:
  assumes "conflict (shape a) (shape b)"
  shows "(a \<in> set mlist \<and> b \<in> set mlist \<longrightarrow> broadcast_shapes mlist = Inl ShapeMismatch)
       \<and> (a \<in> set mlist \<and> b \<in> set mlist \<longrightarrow> vector_stack np dtype_arg mlist = Inl ShapeMismatch)
       \<and> (a \<in> set (concat arr) \<and> b \<in> set (concat arr) \<and> (\<forall>row\<in>set arr. length row = length (hd arr))
            \<longrightarrow> matrix_stack np dtype_arg arr = Inl ShapeMismatch)
       \<and> (a \<in> set (concat arr) \<and> b \<in> set (concat arr)
            \<longrightarrow> (\<exists>e. matrix_stack np dtype_arg arr = Inl e))"
proof -
  have np: "np_broadcast_shapes (map shape xs) = Inl ShapeMismatch"
    if "a \<in> set xs" "b \<in> set xs" for xs :: "('a, 'b) ndarray list"
    using that assms by (intro np_broadcast_shapes_conflict[of "shape a" _ "shape b"]) auto
  have bs: "broadcast_shapes mlist = Inl ShapeMismatch" if "a \<in> set mlist" "b \<in> set mlist"
  proof -
    have "mlist \<noteq> []" using that by auto
    then show ?thesis using broadcast_shapes_nonempty[of mlist] np[OF that] by simp
  qed
  have vs: "vector_stack np dtype_arg mlist = Inl ShapeMismatch"
    if "a \<in> set mlist" "b \<in> set mlist"
  proof -
    have "mlist \<noteq> []" using that by auto
    then show ?thesis using vector_stack_nonempty[of mlist np dtype_arg] np[OF that] by simp
  qed
  have ms: "matrix_stack np dtype_arg arr = Inl ShapeMismatch"
    if "a \<in> set (concat arr)" "b \<in> set (concat arr)" "\<forall>row\<in>set arr. length row = length (hd arr)"
  proof -
    have ne: "concat arr \<noteq> []" by (metis that(1) list.set(1) empty_iff)
    then have "arr \<noteq> []" by auto
    then show ?thesis
      using matrix_stack_rect[OF _ that(3) ne, of np dtype_arg] np[OF that(1,2)] by simp
  qed
  have err: "\<exists>e. matrix_stack np dtype_arg arr = Inl e"
    if "a \<in> set (concat arr)" "b \<in> set (concat arr)"
  proof (cases "\<forall>row\<in>set arr. length row = length (hd arr)")
    case True
    then show ?thesis using ms[OF that] by simp
  next
    case False
    then show ?thesis using ragged_rows_rejected[of arr np dtype_arg] by auto
  qed
  show ?thesis using bs vs ms err by blast
qed

theorem shape_mismatch_raised_witness:
  "conflict [3] [4]
   \<and> broadcast_shapes [vec float32 [1, 2, 3], vec float32 [1, 2, 3, 4]] = Inl ShapeMismatch
   \<and> vector_stack example_numpy None [vec float32 [1, 2, 3], vec float32 [1, 2, 3, 4]]
       = Inl ShapeMismatch
   \<and> matrix_stack example_numpy None [[vec float32 [1, 2, 3], vec float32 [1, 2, 3, 4]]]
       = Inl ShapeMismatch"
proof -
  have c: "conflict [3] [4]" by code_simp
  have c': "conflict (shape (vec float32 [1, 2, 3])) (shape (vec float32 [1, 2, 3, 4]))"
    by code_simp
  from shape_mismatch_raised[OF c',
      of "[vec float32 [1, 2, 3], vec float32 [1, 2, 3, 4]]" example_numpy None
         "[[vec float32 [1, 2, 3], vec float32 [1, 2, 3, 4]]]"]
  show ?thesis using c by simp
qed

text \<open>
  C7. When some row of the matrix input has another length than the first row,
  \<^verbatim>\<open>matrix_stack\<close> returns the error \<open>RaggedInput\<close>, whatever the shapes and dtypes of the
  elements, whatever \<^verbatim>\<open>np.result_type\<close> would return, and also when a dtype is passed:
  the rows are checked in the first loop, before \<^verbatim>\<open>np.result_type\<close> and
  \<^verbatim>\<open>broadcast_shapes\<close> are reached.
\<close>

theorem matrix_stack_ragged:
  assumes "\<exists>row\<in>set arr. length row \<noteq> length (hd arr)"
  shows "matrix_stack np dtype_arg arr = Inl RaggedInput"
proof -
  from assms obtain row0 rest where arr: "arr = row0 # rest" by (cases arr) auto
  then have "\<exists>row\<in>set arr. length row \<noteq> length row0" using assms by simp
  then have "collect_vals (length row0) arr = Inl RaggedInput"
    by (rule collect_vals_ragged)
  then show ?thesis unfolding matrix_stack_def arr by simp
qed

theorem matrix_stack_ragged_witness:
  "map length ragged_matrix = [2, 3]
   \<and> conflict (shape (ragged_matrix ! 0 ! 0)) (shape (ragged_matrix ! 1 ! 1))
   \<and> matrix_stack example_numpy None ragged_matrix = Inl RaggedInput"
proof -
  have r: "\<exists>row\<in>set ragged_matrix. length row \<noteq> length (hd ragged_matrix)"
    by (simp add: ragged_matrix_def)
  have l: "map length ragged_matrix = [2, 3]" by (simp add: ragged_matrix_def)
  have c: "conflict (shape (ragged_matrix ! 0 ! 0)) (shape (ragged_matrix ! 1 ! 1))"
    by code_simp
  from matrix_stack_ragged[OF r, of example_numpy None] l c show ?thesis by simp
qed

subsection \<open>The identity-structured matrix\<close>

text \<open>
  C8. For a sequence of \<open>N\<close> diagonal elements, \<^verbatim>\<open>matrix_stack_id\<close> builds \<open>N\<close> rows of \<open>N\<close>
  elements, element \<open>i\<close> at column \<open>i\<close> of row \<open>i\<close> and the literal 0 elsewhere, and passes
  them to \<^verbatim>\<open>matrix_stack\<close>. When the sequence is not empty and the shapes of the elements
  have the common broadcast shape \<open>B\<close>, the result has shape \<open>B + (N, N)\<close>; its slice at
  \<open>(i, i)\<close> is element \<open>i\<close> broadcast into \<open>B\<close> and its slice at \<open>(i, j)\<close>, \<open>i \<noteq> j\<close>, holds 0
  at every index of \<open>B\<close> (values converted to the dtype of the result).
\<close>

theorem matrix_stack_id_slices:
  "length (id_rows np arr) = length arr
   \<and> (\<forall>i<length arr. length (id_rows np arr ! i) = length arr \<and>
         (\<forall>j<length arr. id_rows np arr ! i ! j = (if i = j then arr ! i else py_zero np)))
   \<and> matrix_stack_id np dtype_arg arr = matrix_stack np dtype_arg (id_rows np arr)
   \<and> (arr \<noteq> [] \<and> np_broadcast_shapes (map shape arr) = Inr B \<longrightarrow>
        (\<exists>M. matrix_stack_id np dtype_arg arr = Inr M \<and> shape M = B @ [length arr, length arr] \<and>
             (\<forall>i<length arr. \<forall>j<length arr.
                 if i = j
                 then \<exists>X. broadcast_to (arr ! i) B = Inr X \<and>
                          getitem_tail M [i, i] = astype np (dtype M) X
                 else getitem_tail M [i, j]
                        = \<lparr>shape = B, dtype = dtype M,
                           data = replicate (size_of B) (np_astype np (dtype M) (np_zero np))\<rparr>)))"
proof -
  have rows: "\<forall>i<length arr. length (id_rows np arr ! i) = length arr \<and>
             (\<forall>j<length arr. id_rows np arr ! i ! j = (if i = j then arr ! i else py_zero np))"
    by (simp add: id_rows_nth id_rows_entry)
  have result: "\<exists>M. matrix_stack_id np dtype_arg arr = Inr M \<and>
             shape M = B @ [length arr, length arr] \<and>
             (\<forall>i<length arr. \<forall>j<length arr.
                 if i = j
                 then \<exists>X. broadcast_to (arr ! i) B = Inr X \<and>
                          getitem_tail M [i, i] = astype np (dtype M) X
                 else getitem_tail M [i, j]
                        = \<lparr>shape = B, dtype = dtype M,
                           data = replicate (size_of B) (np_astype np (dtype M) (np_zero np))\<rparr>)"
    if ne: "arr \<noteq> []" and B: "np_broadcast_shapes (map shape arr) = Inr B"
  proof -
    from stacked_identity_slots[OF ne B, of np dtype_arg]
    obtain M where M: "matrix_stack_id np dtype_arg arr = Inr M"
      "shape M = B @ [length arr, length arr]"
      and slots: "\<And>i j. i < length arr \<Longrightarrow> j < length arr \<Longrightarrow>
         broadcastable (shape (if i = j then arr ! i else py_zero np)) B \<and>
         getitem_tail M [i, j]
           = astype np (dtype M) (broadcast_view (if i = j then arr ! i else py_zero np) B)"
      by blast
    have diag: "\<exists>X. broadcast_to (arr ! i) B = Inr X \<and>
                    getitem_tail M [i, i] = astype np (dtype M) X"
      if "i < length arr" for i
      using slots[OF that that] by (simp add: broadcast_to_def)
    have off: "getitem_tail M [i, j]
                 = \<lparr>shape = B, dtype = dtype M,
                    data = replicate (size_of B) (np_astype np (dtype M) (np_zero np))\<rparr>"
      if "i < length arr" "j < length arr" "i \<noteq> j" for i j
      using slots[OF that(1,2)] that(3) by (simp add: broadcast_view_py_zero astype_def)
    have "\<forall>i<length arr. \<forall>j<length arr.
            if i = j
            then \<exists>X. broadcast_to (arr ! i) B = Inr X \<and>
                     getitem_tail M [i, i] = astype np (dtype M) X
            else getitem_tail M [i, j]
                   = \<lparr>shape = B, dtype = dtype M,
                      data = replicate (size_of B) (np_astype np (dtype M) (np_zero np))\<rparr>"
      using diag off by simp
    then show ?thesis using M by blast
  qed
  show ?thesis using rows result by (simp add: matrix_stack_id_def)
qed

theorem matrix_stack_id_slices_witness:
  "id_rows example_numpy example_diagonal
     = [[vec float32 [1, 2, 3], py_zero example_numpy], [py_zero example_numpy, vec float32 [5]]]
   \<and> (\<exists>M. matrix_stack_id example_numpy None example_diagonal = Inr M \<and> shape M = [3, 2, 2] \<and>
         getitem_tail M [0, 0] = \<lparr>shape = [3], dtype = dtype M, data = [1, 2, 3]\<rparr> \<and>
         getitem_tail M [1, 1] = \<lparr>shape = [3], dtype = dtype M, data = [5, 5, 5]\<rparr> \<and>
         getitem_tail M [0, 1] = \<lparr>shape = [3], dtype = dtype M, data = [0, 0, 0]\<rparr> \<and>
         getitem_tail M [1, 0] = \<lparr>shape = [3], dtype = dtype M, data = [0, 0, 0]\<rparr>)"
proof -
  have ne: "example_diagonal \<noteq> []" by (simp add: example_diagonal_def)
  have B: "np_broadcast_shapes (map shape example_diagonal) = Inr [3]" by code_simp
  have len: "length example_diagonal = 2" by (simp add: example_diagonal_def)
  have rows: "id_rows example_numpy example_diagonal
     = [[vec float32 [1, 2, 3], py_zero example_numpy], [py_zero example_numpy, vec float32 [5]]]"
    by (simp add: id_rows_def example_diagonal_def)
  from matrix_stack_id_slices[of example_numpy example_diagonal None "[3]"] ne B
  obtain M where M: "matrix_stack_id example_numpy None example_diagonal = Inr M"
    "shape M = [3] @ [length example_diagonal, length example_diagonal]"
    and slots: "\<And>i j. i < length example_diagonal \<Longrightarrow> j < length example_diagonal \<Longrightarrow>
       (if i = j
        then \<exists>X. broadcast_to (example_diagonal ! i) [3] = Inr X \<and>
                 getitem_tail M [i, i] = astype example_numpy (dtype M) X
        else getitem_tail M [i, j]
               = \<lparr>shape = [3], dtype = dtype M,
                  data = replicate (size_of [3])
                           (np_astype example_numpy (dtype M) (np_zero example_numpy))\<rparr>)"
    by blast
  have b0: "broadcast_to (example_diagonal ! 0) [3]
              = Inr \<lparr>shape = [3], dtype = float32, data = [1, 2, 3]\<rparr>"
    by code_simp
  have b1: "broadcast_to (example_diagonal ! 1) [3]
              = Inr \<lparr>shape = [3], dtype = float32, data = [5, 5, 5]\<rparr>"
    by code_simp
  have z: "replicate 3 (np_astype example_numpy d (np_zero example_numpy)) = [0, 0, 0]" for d
    by (simp add: example_numpy_def numeral_3_eq_3)
  have "getitem_tail M [0, 0] = \<lparr>shape = [3], dtype = dtype M, data = [1, 2, 3]\<rparr>"
    using slots[of 0 0] b0 len by (auto simp: astype_def example_numpy_def)
  moreover have "getitem_tail M [1, 1] = \<lparr>shape = [3], dtype = dtype M, data = [5, 5, 5]\<rparr>"
    using slots[of 1 1] b1 len by (auto simp: astype_def example_numpy_def)
  moreover have "getitem_tail M [0, 1] = \<lparr>shape = [3], dtype = dtype M, data = [0, 0, 0]\<rparr>"
    using slots[of 0 1] len by (simp add: z)
  moreover have "getitem_tail M [1, 0] = \<lparr>shape = [3], dtype = dtype M, data = [0, 0, 0]\<rparr>"
    using slots[of 1 0] len by (simp add: z)
  ultimately show ?thesis using M rows len by simp
qed

subsection \<open>The empty list of shapes\<close>

text \<open>
  C9. The claim is that \<^verbatim>\<open>broadcast_shapes\<close> returns the empty shape \<^verbatim>\<open>()\<close> for an empty
  list. The loop does not run then and the function returns the initial value of
  \<^verbatim>\<open>bc\<close>, which is \<^verbatim>\<open>None\<close>: no shape at all. Amended: on an empty list
  \<^verbatim>\<open>broadcast_shapes\<close> returns \<^verbatim>\<open>None\<close>.
\<close>

theorem broadcast_shapes_empty: "broadcast_shapes [] = Inr None"
proof -
  have "broadcast_shapes_loop [] 0 None = Inr None"
    by (subst broadcast_shapes_loop.simps) simp
  then show ?thesis by (simp only: broadcast_shapes_def)
qed

theorem broadcast_shapes_empty_counterexample:
  "broadcast_shapes ([] :: (scalar_type, int) ndarray list) \<noteq> Inr (Some [])"
  by (simp add: broadcast_shapes_Nil)

subsection \<open>The dtype of the identity-structured matrix\<close>

text \<open>
  C10. The claim is that the literal 0 always takes part in the promotion of the result
  dtype. With one diagonal element there is no off-diagonal entry, and the result has the
  dtype of that element. Amended: for a non-empty sequence of diagonal elements with a
  common broadcast shape, no dtype passed, and a library whose \<^verbatim>\<open>np.result_type\<close> and
  \<^verbatim>\<open>np.array\<close> promote the dtypes of their arguments by an associative, commutative and
  idempotent rule \<open>pr\<close>: the result dtype is the promotion of the diagonal dtypes
  together with the dtype of the literal 0 when there are at least two elements, and the
  dtype of the element when there is one; in both cases promoting any diagonal dtype
  into it changes nothing, so it is never narrower than a diagonal element's dtype.
\<close>

theorem matrix_stack_id_dtype:
  assumes pr: "promotion_rule pr" and np: "promotes_with np pr"
    and ne: "arr \<noteq> []" and B: "np_broadcast_shapes (map shape arr) = Inr B"
  shows "\<exists>M d. matrix_stack_id np None arr = Inr M \<and> promotion_of pr (map dtype arr) = Some d \<and>
           dtype M = (if 2 \<le> length arr then pr d (np_int_dtype np) else d) \<and>
           (\<forall>a\<in>set arr. pr (dtype a) (dtype M) = dtype M)"
proof -
  obtain d where d: "promotion_of pr (map dtype arr) = Some d"
    using ne by (cases arr) (auto simp: promotion_of_def)
  obtain M where M: "matrix_stack_id np None arr = Inr M"
    "dtype M = (if B = [] then np_array_dtype np (concat (id_rows np arr))
                else np_result_type np (concat (id_rows np arr)))"
    using stacked_identity_slots[OF ne B, of np None] by auto
  have cne: "concat (id_rows np arr) \<noteq> []" using ne by (rule id_rows_concat_nonempty)
  have "promotion_of pr (map dtype (concat (id_rows np arr)))
          = Some (np_result_type np (concat (id_rows np arr)))"
    and "promotion_of pr (map dtype (concat (id_rows np arr)))
          = Some (np_array_dtype np (concat (id_rows np arr)))"
    using np cne unfolding promotes_with_def by blast+
  then have dM: "promotion_of pr (map dtype (concat (id_rows np arr))) = Some (dtype M)"
    using M(2) by (cases "B = []") simp_all
  have val: "dtype M = (if 2 \<le> length arr then pr d (np_int_dtype np) else d)"
  proof (cases "2 \<le> length arr")
    case True
    then show ?thesis using promotion_of_id_rows[OF pr True d, of np] dM by simp
  next
    case False
    then obtain a where "arr = [a]" using ne
      by (cases arr) (auto simp: not_le less_Suc_eq)
    then show ?thesis using dM d False by (simp add: id_rows_single)
  qed
  have up: "pr (dtype a) (dtype M) = dtype M" if "a \<in> set arr" for a
  proof -
    have "a \<in> set (concat (id_rows np arr))" using that id_rows_set_diag[of arr np] by blast
    then have "dtype a \<in> set (map dtype (concat (id_rows np arr)))" by simp
    then show ?thesis by (rule promotion_of_upper[OF pr dM])
  qed
  show ?thesis using M(1) d val up by blast
qed

theorem matrix_stack_id_dtype_witness:
  "promotion_of promote (map dtype example_diagonal) = Some float32
   \<and> np_int_dtype example_numpy = int64
   \<and> (\<exists>M. matrix_stack_id example_numpy None example_diagonal = Inr M \<and> dtype M = float64
          \<and> promote float32 (dtype M) = dtype M)"
proof -
  have ne: "example_diagonal \<noteq> []" by (simp add: example_diagonal_def)
  have B: "np_broadcast_shapes (map shape example_diagonal) = Inr [3]" by code_simp
  have d: "promotion_of promote (map dtype example_diagonal) = Some float32" by code_simp
  have n: "2 \<le> length example_diagonal" by (simp add: example_diagonal_def)
  have i: "np_int_dtype example_numpy = int64" by (simp add: example_numpy_def int64_def)
  have p: "promote float32 int64 = float64" by (simp add: float32_def int64_def float64_def)
  have m: "vec float32 [1, 2, 3] \<in> set example_diagonal" by (simp add: example_diagonal_def)
  from matrix_stack_id_dtype[OF promotion_rule_promote promotes_with_example ne B]
  obtain M d' where M: "matrix_stack_id example_numpy None example_diagonal = Inr M"
    "promotion_of promote (map dtype example_diagonal) = Some d'"
    "dtype M = (if 2 \<le> length example_diagonal then promote d' (np_int_dtype example_numpy) else d')"
    "\<forall>a\<in>set example_diagonal. promote (dtype a) (dtype M) = dtype M"
    by blast
  have "d' = float32" using M(2) d by simp
  then have "dtype M = float64" using M(3) n i p by simp
  moreover have "promote float32 (dtype M) = dtype M" using M(4) m by (auto simp: vec_def)
  ultimately show ?thesis using M(1) d i by simp
qed

theorem matrix_stack_id_dtype_counterexample:
  "map_sum id dtype (matrix_stack_id example_numpy None [vec float32 [1, 2, 3]])
     \<noteq> Inr (promote float32 (np_int_dtype example_numpy))"
proof -
  have ne: "[vec float32 [1, 2, 3]] \<noteq> []" by simp
  have B: "np_broadcast_shapes (map shape [vec float32 [1, 2, 3]]) = Inr [3]" by code_simp
  from stacked_identity_slots[OF ne B, of example_numpy None]
  obtain M where M: "matrix_stack_id example_numpy None [vec float32 [1, 2, 3]] = Inr M"
    "dtype M = np_result_type example_numpy (concat (id_rows example_numpy [vec float32 [1, 2, 3]]))"
    by auto
  have "dtype M = float32"
    unfolding M(2) id_rows_single
    by (simp add: example_numpy_def promote_arrays_def promotion_of_def vec_def)
  moreover have "promote float32 (np_int_dtype example_numpy) = float64"
    by (simp add: example_numpy_def float32_def float64_def)
  moreover have "float32 \<noteq> float64" by (simp add: float32_def float64_def)
  ultimately show ?thesis using M(1) by simp
qed

end
